theory Spec2Isabelle
  imports Complex_Main "HOL-Library.Sublist"
begin

section \<open>Strings, lines and JavaScript list primitives\<close>

text \<open>
  The engine of \<^verbatim>\<open>src/tools/ApplyDiffTool.ts\<close> works on JavaScript strings. A string is
  modelled as a \<^typ>\<open>string\<close> (a list of 8-bit characters), which covers every text whose
  code units are below 256; the whitespace class of \<^verbatim>\<open>\s\<close> and of \<^verbatim>\<open>trim()\<close> is
  restricted to that range accordingly (TAB, LF, VT, FF, CR, SPACE, NBSP). Similarity
  scores are JavaScript numbers in the source; they are modelled as exact rationals,
  which decide every comparison with the default threshold 1 as the doubles do.
  Line hints are modelled as integers, an absent hint as \<^term>\<open>None\<close>.
\<close>

abbreviation LF :: char where "LF \<equiv> CHR 0x0A"
abbreviation CR :: char where "CR \<equiv> CHR 0x0D"
abbreviation TAB :: char where "TAB \<equiv> CHR 0x09"
abbreviation SP :: char where "SP \<equiv> CHR 0x20"
abbreviation PIPE :: char where "PIPE \<equiv> CHR 0x7C"

definition isSpace :: "char \<Rightarrow> bool" where
  \<comment> \<open>the class \<^verbatim>\<open>\s\<close>, also what \<^verbatim>\<open>trim()\<close> removes\<close>
  "isSpace c \<longleftrightarrow>
     c = TAB \<or> c = LF \<or> c = CHR 0x0B \<or> c = CHR 0x0C \<or> c = CR \<or> c = SP \<or> c = CHR 0xA0"

definition isDigit :: "char \<Rightarrow> bool" where
  \<comment> \<open>the class \<^verbatim>\<open>\d\<close>\<close>
  "isDigit c \<longleftrightarrow> c \<in> set ''0123456789''"

definition isIndentChar :: "char \<Rightarrow> bool" where
  \<comment> \<open>the class \<^verbatim>\<open>[\t ]\<close>\<close>
  "isIndentChar c \<longleftrightarrow> c = TAB \<or> c = SP"

definition isLineTerminator :: "char \<Rightarrow> bool" where
  \<comment> \<open>what \<^verbatim>\<open>.\<close> does not match\<close>
  "isLineTerminator c \<longleftrightarrow> c = LF \<or> c = CR"

definition slice :: "'a list \<Rightarrow> int \<Rightarrow> int \<Rightarrow> 'a list" where
  \<comment> \<open>\<^verbatim>\<open>xs.slice(a, b)\<close>: negative arguments count from the end, both are clamped\<close>
  "slice xs a b =
     (let n = int (length xs);
          from = (if a < 0 then max 0 (n + a) else min a n);
          to = (if b < 0 then max 0 (n + b) else min b n)
      in take (nat (to - from)) (drop (nat from) xs))"

definition sliceFrom :: "'a list \<Rightarrow> int \<Rightarrow> 'a list" where
  \<comment> \<open>\<^verbatim>\<open>xs.slice(a)\<close>\<close>
  "sliceFrom xs a = slice xs a (int (length xs))"

fun joinWith :: "string \<Rightarrow> string list \<Rightarrow> string" where
  \<comment> \<open>\<^verbatim>\<open>lines.join(sep)\<close>\<close>
  "joinWith sep [] = []"
| "joinWith sep [l] = l"
| "joinWith sep (l # ls) = l @ sep @ joinWith sep ls"

fun splitLines :: "string \<Rightarrow> string list" where
  \<comment> \<open>\<^verbatim>\<open>s.split(/\r?\n/)\<close>: a CR directly before an LF belongs to the separator\<close>
  "splitLines [] = [[]]"
| "splitLines (c # cs) =
     (if c = LF then [] # splitLines cs
      else if c = CR \<and> cs \<noteq> [] \<and> hd cs = LF then splitLines cs
      else (case splitLines cs of [] \<Rightarrow> [[c]] | l # ls \<Rightarrow> (c # l) # ls))"

fun includesStr :: "string \<Rightarrow> string \<Rightarrow> bool" where
  \<comment> \<open>\<^verbatim>\<open>s.includes(sub)\<close>\<close>
  "includesStr [] sub = (sub = [])"
| "includesStr (c # cs) sub = (prefix sub (c # cs) \<or> includesStr cs sub)"

definition lineEndingOf :: "string \<Rightarrow> string" where
  \<comment> \<open>\<^verbatim>\<open>content.includes('\r\n') ? '\r\n' : '\n'\<close>\<close>
  "lineEndingOf content = (if includesStr content [CR, LF] then [CR, LF] else [LF])"

definition trim :: "string \<Rightarrow> string" where
  \<comment> \<open>\<^verbatim>\<open>s.trim()\<close>\<close>
  "trim s = rev (dropWhile isSpace (rev (dropWhile isSpace s)))"

definition leadingIndent :: "string \<Rightarrow> string" where
  \<comment> \<open>\<^verbatim>\<open>line.match(/^[\t ]*/)[0]\<close>; the pattern matches every string\<close>
  "leadingIndent line = takeWhile isIndentChar line"

section \<open>Similarity scoring\<close>

definition min3 :: "nat \<Rightarrow> nat \<Rightarrow> nat \<Rightarrow> nat" where
  "min3 x y z = min (min x y) z"

fun levRow :: "char \<Rightarrow> string \<Rightarrow> nat list \<Rightarrow> nat \<Rightarrow> nat list" where
  \<comment> \<open>the inner loop over \<open>j\<close> for one \<open>i\<close>: the third argument is row \<open>i - 1\<close> from
      column \<open>j - 1\<close> on, the fourth is \<open>matrix[i][j - 1]\<close>\<close>
  "levRow ai (bj # bs) (diag # up # prev) left =
     (let v = (if ai = bj then diag else min3 (diag + 1) (left + 1) (up + 1))
      in v # levRow ai bs (up # prev) v)"
| "levRow ai bs prev left = []"

fun levRows :: "string \<Rightarrow> string \<Rightarrow> nat \<Rightarrow> nat list \<Rightarrow> nat list" where
  \<comment> \<open>the outer loop over \<open>i\<close>, carrying row \<open>i - 1\<close>; \<open>matrix[i][0] = i\<close>\<close>
  "levRows [] b i prev = prev"
| "levRows (ai # as) b i prev = levRows as b (Suc i) (i # levRow ai b prev i)"

definition levenshteinDistance :: "string \<Rightarrow> string \<Rightarrow> nat" where
  \<comment> \<open>\<open>matrix[0][j] = j\<close>, then the rows; the result is \<open>matrix[a.length][b.length]\<close>\<close>
  "levenshteinDistance a b = last (levRows a b 1 [0..<Suc (length b)])"

fun collapseSpaces :: "string \<Rightarrow> string" where
  \<comment> \<open>\<^verbatim>\<open>str.replace(/\s+/g, ' ')\<close>: every maximal run of whitespace becomes one space
      (a whitespace character followed by another one is dropped, the last of a run
      is written as a space)\<close>
  "collapseSpaces [] = []"
| "collapseSpaces (c # cs) =
     (if isSpace c then (if cs \<noteq> [] \<and> isSpace (hd cs) then collapseSpaces cs
                         else SP # collapseSpaces cs)
      else c # collapseSpaces cs)"

definition normalizeStr :: "string \<Rightarrow> string" where
  "normalizeStr str = trim (collapseSpaces str)"

definition getSimilarity :: "string \<Rightarrow> string \<Rightarrow> rat" where
  "getSimilarity original search =
     (if search = [] then 1
      else let normalizedOriginal = normalizeStr original;
               normalizedSearch = normalizeStr search
           in if normalizedOriginal = normalizedSearch then 1
              else let distance = levenshteinDistance normalizedOriginal normalizedSearch;
                       maxLength = max (length normalizedOriginal) (length normalizedSearch)
                   in 1 - (of_nat distance / of_nat maxLength))"

section \<open>Normalizer: line-number annotations\<close>

definition lineNumberRest :: "string \<Rightarrow> string option" where
  \<comment> \<open>the pattern \<^verbatim>\<open>/^\s*\d+\s+\|(?!\|)/\<close> on one line: the text after the pipe where
      it matches. The three classes are pairwise disjoint and none contains the
      pipe, so each greedy quantifier takes its whole run in the only possible match.\<close>
  "lineNumberRest line =
     (let r1 = dropWhile isSpace line;
          digits = takeWhile isDigit r1;
          r2 = dropWhile isDigit r1;
          spaces = takeWhile isSpace r2;
          r3 = dropWhile isSpace r2
      in if digits \<noteq> [] \<and> spaces \<noteq> [] \<and> r3 \<noteq> [] \<and> hd r3 = PIPE
            \<and> \<not> (tl r3 \<noteq> [] \<and> hd (tl r3) = PIPE)
         then Some (tl r3) else None)"

definition everyLineHasLineNumbers :: "string \<Rightarrow> bool" where
  "everyLineHasLineNumbers content =
     (let lines = splitLines content
      in length lines > 0 \<and> list_all (\<lambda>line. lineNumberRest line \<noteq> None) lines)"

definition stripLine :: "string \<Rightarrow> string" where
  \<comment> \<open>\<^verbatim>\<open>line.match(/^\s*\d+\s+\|(?!\|)\s?(.*)$/)\<close>, group 1 on a match, the line
      itself otherwise: \<^verbatim>\<open>.\<close> matches no line terminator, so the rest of the line must
      be free of them, after one optional whitespace character (tried first)\<close>
  "stripLine line =
     (case lineNumberRest line of
        None \<Rightarrow> line
      | Some r \<Rightarrow>
          if r \<noteq> [] \<and> isSpace (hd r) \<and> \<not> list_ex isLineTerminator (tl r) then tl r
          else if \<not> list_ex isLineTerminator r then r
          else line)"

definition stripLineNumbers :: "string \<Rightarrow> string" where
  "stripLineNumbers content =
     (let lines = splitLines content;
          processedLines = map stripLine lines;
          lineEnding = lineEndingOf content
      in joinWith lineEnding processedLines)"

definition normalizeBlocks :: "string \<Rightarrow> string \<Rightarrow> string \<times> string" where
  \<comment> \<open>lines 106 to 109 of \<^verbatim>\<open>applyDiff\<close>\<close>
  "normalizeBlocks searchContent replaceContent =
     (if everyLineHasLineNumbers searchContent \<and> everyLineHasLineNumbers replaceContent
      then (stripLineNumbers searchContent, stripLineNumbers replaceContent)
      else (searchContent, replaceContent))"

section \<open>The patch grammar\<close>

fun indexOf :: "string \<Rightarrow> string \<Rightarrow> nat option" where
  \<comment> \<open>position of the first occurrence of the first argument in the second\<close>
  "indexOf sub [] = (if sub = [] then Some 0 else None)"
| "indexOf sub (c # cs) =
     (if prefix sub (c # cs) then Some 0 else map_option Suc (indexOf sub cs))"

definition searchMarker :: string where
  "searchMarker = ''<<<<<<< SEARCH'' @ [LF]"

definition separatorMarker :: string where
  "separatorMarker = ''======='' @ [LF]"

definition replaceMarker :: string where
  "replaceMarker = ''>>>>>>> REPLACE''"

definition lazyGroup :: "string \<Rightarrow> nat \<Rightarrow> string" where
  \<comment> \<open>\<^verbatim>\<open>([\s\S]*?)\n?\<close> in front of a literal found first at position \<open>p\<close>: the lazy
      group stops one character early when that character is an LF\<close>
  "lazyGroup text p = take (if 0 < p \<and> text ! (p - 1) = LF then p - 1 else p) text"

definition parseDiff :: "string \<Rightarrow> (string \<times> string) option" where
  \<comment> \<open>\<^verbatim>\<open>diffContent.match(/<<<<<<< SEARCH\n([\s\S]*?)\n?=======\n([\s\S]*?)\n?>>>>>>> REPLACE/)\<close>:
      the leftmost match starts at the first header, its lazy groups end at the first
      separator after the header and at the first closing marker after that\<close>
  "parseDiff diffContent =
     (case indexOf searchMarker diffContent of
        None \<Rightarrow> None
      | Some i \<Rightarrow>
          let afterHeader = drop (i + length searchMarker) diffContent
          in (case indexOf separatorMarker afterHeader of
                None \<Rightarrow> None
              | Some e \<Rightarrow>
                  let afterSeparator = drop (e + length separatorMarker) afterHeader
                  in (case indexOf replaceMarker afterSeparator of
                        None \<Rightarrow> None
                      | Some r \<Rightarrow> Some (lazyGroup afterHeader e, lazyGroup afterSeparator r))))"

section \<open>Matcher\<close>

record DiffStrategy =
  fuzzyThreshold :: rat
  bufferLines :: int

definition defaultStrategy :: DiffStrategy where
  \<comment> \<open>\<^verbatim>\<open>new SearchReplaceDiffStrategy()\<close>: threshold 1.0, \<^verbatim>\<open>BUFFER_LINES = 20\<close>\<close>
  "defaultStrategy = \<lparr>fuzzyThreshold = 1, bufferLines = 20\<rparr>"

record Best =
  matchIndex :: int
  bestMatchScore :: rat
  bestMatchContent :: string

definition initialBest :: Best where
  "initialBest = \<lparr>matchIndex = - 1, bestMatchScore = 0, bestMatchContent = []\<rparr>"

definition truthy :: "int option \<Rightarrow> bool" where
  \<comment> \<open>JavaScript truthiness of an optional number: \<^verbatim>\<open>undefined\<close> and 0 are falsy\<close>
  "truthy h = (case h of None \<Rightarrow> False | Some v \<Rightarrow> v \<noteq> 0)"

definition hintValue :: "int option \<Rightarrow> int" where
  \<comment> \<open>the number held by a hint; read only where the hint is truthy\<close>
  "hintValue h = (case h of None \<Rightarrow> 0 | Some v \<Rightarrow> v)"

definition candidateChunk :: "string list \<Rightarrow> string list \<Rightarrow> int \<Rightarrow> string" where
  \<comment> \<open>\<^verbatim>\<open>originalLines.slice(i, i + searchLines.length).join('\n')\<close>\<close>
  "candidateChunk originalLines searchLines i =
     joinWith [LF] (slice originalLines i (i + int (length searchLines)))"

definition candidateScore :: "string list \<Rightarrow> string list \<Rightarrow> int \<Rightarrow> rat" where
  "candidateScore originalLines searchLines i =
     getSimilarity (candidateChunk originalLines searchLines i) (joinWith [LF] searchLines)"

definition probe :: "string list \<Rightarrow> string list \<Rightarrow> int \<Rightarrow> Best \<Rightarrow> Best" where
  \<comment> \<open>one probe of the scan: the best is replaced on a strictly greater score only\<close>
  "probe originalLines searchLines i st =
     (let chunk = candidateChunk originalLines searchLines i;
          similarity = candidateScore originalLines searchLines i
      in if similarity > bestMatchScore st
         then \<lparr>matchIndex = i, bestMatchScore = similarity, bestMatchContent = chunk\<rparr>
         else st)"

function middleOut ::
  "string list \<Rightarrow> string list \<Rightarrow> int \<Rightarrow> int \<Rightarrow> int \<Rightarrow> int \<Rightarrow> Best \<Rightarrow> Best" where
  \<comment> \<open>the \<^verbatim>\<open>while\<close> loop of lines 167 to 189\<close>
  "middleOut originalLines searchLines searchStartIndex searchEndIndex leftIndex rightIndex st =
     (if leftIndex \<ge> searchStartIndex
         \<or> rightIndex \<le> searchEndIndex - int (length searchLines)
      then middleOut originalLines searchLines searchStartIndex searchEndIndex
             (if leftIndex \<ge> searchStartIndex then leftIndex - 1 else leftIndex)
             (if rightIndex \<le> searchEndIndex - int (length searchLines)
              then rightIndex + 1 else rightIndex)
             ((if rightIndex \<le> searchEndIndex - int (length searchLines)
               then probe originalLines searchLines rightIndex else id)
                ((if leftIndex \<ge> searchStartIndex
                  then probe originalLines searchLines leftIndex else id) st))
      else st)"
  by pat_completeness auto
termination
  by (relation "measure (\<lambda>(ol, sl, s, e, l, r, st).
        nat (l - s + 1) + nat (e - int (length sl) - r + 1))") auto

definition middleOutSearch ::
  "string list \<Rightarrow> string list \<Rightarrow> int \<Rightarrow> int \<Rightarrow> Best \<Rightarrow> Best" where
  \<comment> \<open>lines 163 to 189: the scan from the midpoint of the window\<close>
  "middleOutSearch originalLines searchLines searchStartIndex searchEndIndex st =
     (let midPoint = (searchStartIndex + searchEndIndex) div 2
      in middleOut originalLines searchLines searchStartIndex searchEndIndex
           midPoint (midPoint + 1) st)"

function probeOrder :: "nat \<Rightarrow> int \<Rightarrow> int \<Rightarrow> int \<Rightarrow> int \<Rightarrow> int list" where
  \<comment> \<open>the start indices the loop probes, in the order in which it probes them, for a
      SEARCH block of \<open>n\<close> lines: the loop above with the probes collected\<close>
  "probeOrder n searchStartIndex searchEndIndex leftIndex rightIndex =
     (if leftIndex \<ge> searchStartIndex \<or> rightIndex \<le> searchEndIndex - int n
      then (if leftIndex \<ge> searchStartIndex then [leftIndex] else [])
             @ (if rightIndex \<le> searchEndIndex - int n then [rightIndex] else [])
             @ probeOrder n searchStartIndex searchEndIndex
                 (if leftIndex \<ge> searchStartIndex then leftIndex - 1 else leftIndex)
                 (if rightIndex \<le> searchEndIndex - int n then rightIndex + 1 else rightIndex)
      else [])"
  by pat_completeness auto
termination
  by (relation "measure (\<lambda>(n, s, e, l, r). nat (l - s + 1) + nat (e - int n - r + 1))") auto

datatype DiffError =
    InvalidDiffFormat
  | EmptySearchNeedsStartLine
  | EmptySearchNeedsSameLine int int
  | InvalidLineRange int int nat
  | NoSufficientMatch Best rat

text \<open>
  A failure of the source carries a formatted message; the model keeps the values the
  message is built from: the two hints, the line count, the best candidate and the
  threshold.
\<close>

datatype DiffResult = Success string | Failure DiffError

definition searchWindow :: "DiffStrategy \<Rightarrow> string list \<Rightarrow> int \<Rightarrow> int \<Rightarrow> int \<times> int" where
  \<comment> \<open>lines 156 and 157: the buffered window around the hint, clamped to the document\<close>
  "searchWindow cfg originalLines startLine endLine =
     (max 0 (startLine - (bufferLines cfg + 1)),
      min (int (length originalLines)) (endLine + bufferLines cfg))"

definition findMatch ::
  "DiffStrategy \<Rightarrow> string list \<Rightarrow> string list \<Rightarrow> int option \<Rightarrow> int option
     \<Rightarrow> DiffError + Best" where
  \<comment> \<open>lines 129 to 190: the hinted exact check, then the scan of the window\<close>
  "findMatch cfg originalLines searchLines startLine endLine =
     (if truthy startLine \<and> truthy endLine then
        let exactStartIndex = hintValue startLine - 1;
            exactEndIndex = hintValue endLine - 1
        in if exactStartIndex < 0 \<or> exactEndIndex \<ge> int (length originalLines)
              \<or> exactStartIndex > exactEndIndex
           then Inl (InvalidLineRange (hintValue startLine) (hintValue endLine)
                       (length originalLines))
           else
             let originalChunk =
                   joinWith [LF] (slice originalLines exactStartIndex (exactEndIndex + 1));
                 similarity = getSimilarity originalChunk (joinWith [LF] searchLines)
             in if similarity \<ge> fuzzyThreshold cfg
                then Inr \<lparr>matchIndex = exactStartIndex, bestMatchScore = similarity,
                          bestMatchContent = originalChunk\<rparr>
                else
                  let (searchStartIndex, searchEndIndex) =
                        searchWindow cfg originalLines (hintValue startLine) (hintValue endLine)
                  in Inr (middleOutSearch originalLines searchLines
                            searchStartIndex searchEndIndex initialBest)
      else Inr (middleOutSearch originalLines searchLines
                  0 (int (length originalLines)) initialBest))"

section \<open>Splicer\<close>

definition firstOrEmpty :: "string list \<Rightarrow> string" where
  \<comment> \<open>\<^verbatim>\<open>xs[0] || ''\<close>\<close>
  "firstOrEmpty xs = (case xs of [] \<Rightarrow> [] | x # _ \<Rightarrow> x)"

definition indentReplaceLine :: "string \<Rightarrow> string \<Rightarrow> string \<Rightarrow> string" where
  \<comment> \<open>the body of the \<^verbatim>\<open>replaceLines.map\<close> callback, lines 229 to 242\<close>
  "indentReplaceLine matchedIndent searchBaseIndent line =
     (let currentIndent = leadingIndent line;
          searchBaseLevel = int (length searchBaseIndent);
          currentLevel = int (length currentIndent);
          relativeLevel = currentLevel - searchBaseLevel;
          finalIndent =
            (if relativeLevel < 0
             then slice matchedIndent 0 (max 0 (int (length matchedIndent) + relativeLevel))
             else matchedIndent @ sliceFrom currentIndent searchBaseLevel)
      in finalIndent @ trim line)"

definition indentedReplaceLines ::
  "string list \<Rightarrow> string list \<Rightarrow> string list \<Rightarrow> int \<Rightarrow> string list" where
  \<comment> \<open>lines 217 to 243\<close>
  "indentedReplaceLines originalLines searchLines replaceLines mi =
     (let matchedLines = slice originalLines mi (mi + int (length searchLines));
          originalIndents = map leadingIndent matchedLines;
          searchIndents = map leadingIndent searchLines
      in map (indentReplaceLine (firstOrEmpty originalIndents) (firstOrEmpty searchIndents))
           replaceLines)"

definition spliceLines ::
  "string list \<Rightarrow> string list \<Rightarrow> string list \<Rightarrow> int \<Rightarrow> string list" where
  \<comment> \<open>lines 245 to 247, before the final join\<close>
  "spliceLines originalLines searchLines replaceLines mi =
     (let beforeMatch = slice originalLines 0 mi;
          afterMatch = sliceFrom originalLines (mi + int (length searchLines))
      in beforeMatch @ indentedReplaceLines originalLines searchLines replaceLines mi
           @ afterMatch)"

section \<open>applyDiff\<close>

definition blockLines :: "string \<Rightarrow> string list" where
  \<comment> \<open>\<^verbatim>\<open>content === '' ? [] : content.split(/\r?\n/)\<close>\<close>
  "blockLines content = (if content = [] then [] else splitLines content)"

definition applyDiffBlocks ::
  "DiffStrategy \<Rightarrow> string \<Rightarrow> string \<Rightarrow> string \<Rightarrow> int option \<Rightarrow> int option
     \<Rightarrow> DiffResult" where
  \<comment> \<open>\<^verbatim>\<open>applyDiff\<close> from line 104 on, for the two groups of the patch\<close>
  "applyDiffBlocks cfg originalContent searchContent0 replaceContent0 startLine endLine =
     (let lineEnding = lineEndingOf originalContent;
          (searchContent, replaceContent) = normalizeBlocks searchContent0 replaceContent0;
          searchLines = blockLines searchContent;
          replaceLines = blockLines replaceContent;
          originalLines = splitLines originalContent
      in if length searchLines = 0 \<and> \<not> truthy startLine
         then Failure EmptySearchNeedsStartLine
         else if length searchLines = 0 \<and> truthy startLine \<and> truthy endLine
                 \<and> hintValue startLine \<noteq> hintValue endLine
         then Failure (EmptySearchNeedsSameLine (hintValue startLine) (hintValue endLine))
         else
           (case findMatch cfg originalLines searchLines startLine endLine of
              Inl err \<Rightarrow> Failure err
            | Inr best \<Rightarrow>
                if matchIndex best = - 1 \<or> bestMatchScore best < fuzzyThreshold cfg
                then Failure (NoSufficientMatch best (fuzzyThreshold cfg))
                else Success (joinWith lineEnding
                       (spliceLines originalLines searchLines replaceLines (matchIndex best)))))"

definition applyDiff ::
  "DiffStrategy \<Rightarrow> string \<Rightarrow> string \<Rightarrow> int option \<Rightarrow> int option \<Rightarrow> DiffResult" where
  "applyDiff cfg originalContent diffContent startLine endLine =
     (case parseDiff diffContent of
        None \<Rightarrow> Failure InvalidDiffFormat
      | Some (searchContent, replaceContent) \<Rightarrow>
          applyDiffBlocks cfg originalContent searchContent replaceContent startLine endLine)"

definition makeDiff :: "string \<Rightarrow> string \<Rightarrow> string" where
  \<comment> \<open>the patch text that carries a SEARCH and a REPLACE block, one per line group\<close>
  "makeDiff searchContent replaceContent =
     searchMarker @ searchContent @ [LF] @ separatorMarker @ replaceContent @ [LF]
       @ replaceMarker"

definition searchLinesOf :: "string \<Rightarrow> string \<Rightarrow> string list" where
  \<comment> \<open>\<^verbatim>\<open>searchLines\<close> of \<^verbatim>\<open>applyDiff\<close> for the two groups of the patch\<close>
  "searchLinesOf searchContent replaceContent =
     blockLines (fst (normalizeBlocks searchContent replaceContent))"

definition replaceLinesOf :: "string \<Rightarrow> string \<Rightarrow> string list" where
  \<comment> \<open>\<^verbatim>\<open>replaceLines\<close> of \<^verbatim>\<open>applyDiff\<close> for the two groups of the patch\<close>
  "replaceLinesOf searchContent replaceContent =
     blockLines (snd (normalizeBlocks searchContent replaceContent))"

section \<open>Reference definitions taken from the specification\<close>

definition truncateBy :: "nat \<Rightarrow> string \<Rightarrow> string" where
  \<comment> \<open>a string truncated by \<open>n\<close> characters, never below empty\<close>
  "truncateBy n s = take (length s - n) s"

definition specIndentLine :: "string \<Rightarrow> string \<Rightarrow> string \<Rightarrow> string" where
  \<comment> \<open>the indentation rule in the words of the specification\<close>
  "specIndentLine matchedIndent searchBaseIndent line =
     (let currentIndent = leadingIndent line;
          relativeLevel = int (length currentIndent) - int (length searchBaseIndent);
          finalIndent =
            (if relativeLevel < 0 then truncateBy (nat \<bar>relativeLevel\<bar>) matchedIndent
             else matchedIndent @ drop (length searchBaseIndent) currentIndent)
      in finalIndent @ trim line)"

definition belowThreshold ::
  "DiffStrategy \<Rightarrow> string list \<Rightarrow> string list \<Rightarrow> int option \<Rightarrow> int option \<Rightarrow> bool" where
  \<comment> \<open>"best candidate score below the threshold": every candidate the matcher scores,
      the hinted range first and then the candidates of the window, stays below it\<close>
  "belowThreshold cfg ol sl startLine endLine =
     (if truthy startLine \<and> truthy endLine
      then getSimilarity
             (joinWith [LF] (slice ol (hintValue startLine - 1) (hintValue endLine)))
             (joinWith [LF] sl) < fuzzyThreshold cfg
           \<and> (let (s, e) = searchWindow cfg ol (hintValue startLine) (hintValue endLine)
              in list_all (\<lambda>i. candidateScore ol sl i < fuzzyThreshold cfg)
                   (probeOrder (length sl) s e ((s + e) div 2) ((s + e) div 2 + 1)))
      else list_all (\<lambda>i. candidateScore ol sl i < fuzzyThreshold cfg)
             (probeOrder (length sl) 0 (int (length ol))
                ((0 + int (length ol)) div 2) ((0 + int (length ol)) div 2 + 1)))"

fun editDistance :: "string \<Rightarrow> string \<Rightarrow> nat" where
  \<comment> \<open>single-character edit distance by recursion on the last characters, both
      strings given reversed; the recurrence is the one the matrix is filled with\<close>
  "editDistance [] ys = length ys"
| "editDistance xs [] = length xs"
| "editDistance (x # xs) (y # ys) =
     (if x = y then editDistance xs ys
      else min3 (editDistance xs ys + 1) (editDistance (x # xs) ys + 1)
             (editDistance xs (y # ys) + 1))"

fun rowOf :: "string \<Rightarrow> string \<Rightarrow> string \<Rightarrow> nat list" where
  \<comment> \<open>a row of the matrix in terms of \<open>editDistance\<close>: the distances from one reversed
      prefix of the first string to the reversed prefixes of the second, from a given
      prefix on\<close>
  "rowOf rp rpre [] = [editDistance rp rpre]"
| "rowOf rp rpre (y # ys) = editDistance rp rpre # rowOf rp (y # rpre) ys"

definition exhaustiveBest :: "string list \<Rightarrow> string list \<Rightarrow> int \<Rightarrow> int \<Rightarrow> rat" where
  \<comment> \<open>the exhaustive scan: the best score over all candidate windows of the SEARCH
      block's length inside the window from \<open>s\<close> to \<open>e\<close>, from the initial best 0\<close>
  "exhaustiveBest ol sl s e =
     fold max (map (candidateScore ol sl) [s..e - int (length sl)]) 0"

definition verbatimUnder :: "string \<Rightarrow> string \<Rightarrow> bool" where
  \<comment> \<open>a REPLACE line that the re-indentation under the indent \<open>base\<close> leaves as it is:
      its indent of tabs and spaces is a prefix or an extension of \<open>base\<close>, and it
      has no other whitespace at either end\<close>
  "verbatimUnder base line \<longleftrightarrow>
     (prefix base (leadingIndent line) \<or> prefix (leadingIndent line) base)
     \<and> line = leadingIndent line @ trim line"

section \<open>Properties\<close>

subsection \<open>Slices\<close>

lemma slice_take: "0 \<le> m \<Longrightarrow> slice xs 0 m = take (nat m) xs"
  by (simp add: slice_def Let_def min_def)

lemma sliceFrom_drop: "0 \<le> m \<Longrightarrow> sliceFrom xs m = drop (nat m) xs"
  by (simp add: sliceFrom_def slice_def Let_def min_def)

lemma slice_take_drop:
  "0 \<le> a \<Longrightarrow> a \<le> b \<Longrightarrow> slice xs a b = take (nat (b - a)) (drop (nat a) xs)"
  by (auto simp add: slice_def Let_def min_def)

subsection \<open>The middle-out scan\<close>

declare probeOrder.simps [simp del]
declare middleOut.simps [simp del]

lemma middleOut_fold:
  "middleOut ol sl s e l r st = fold (probe ol sl) (probeOrder (length sl) s e l r) st"
proof (induction ol sl s e l r st rule: middleOut.induct)
  case (1 ol sl s e l r st)
  show ?case
  proof (cases "l \<ge> s \<or> r \<le> e - int (length sl)")
    case True
    then show ?thesis
      using 1[OF True]
      by (subst middleOut.simps, subst probeOrder.simps) auto
  next
    case False
    then show ?thesis
      by (subst middleOut.simps, subst probeOrder.simps) auto
  qed
qed

lemma probeOrder_set:
  "set (probeOrder n s e l r) = {i. s \<le> i \<and> i \<le> l} \<union> {i. r \<le> i \<and> i \<le> e - int n}"
proof (induction n s e l r rule: probeOrder.induct)
  case (1 n s e l r)
  show ?case
  proof (cases "l \<ge> s \<or> r \<le> e - int n")
    case True
    show ?thesis
      apply (subst probeOrder.simps)
      using True 1[OF True]
      by auto
  next
    case False
    then show ?thesis
      by (subst probeOrder.simps) auto
  qed
qed

lemma probeOrder_sorted:
  assumes "l \<le> mid" "mid < r" "l < s \<or> e - int n < r \<or> r - mid = mid - l + 1"
  shows "sorted_wrt (\<lambda>i j. \<bar>i - mid\<bar> \<le> \<bar>j - mid\<bar>) (probeOrder n s e l r)"
  using assms
proof (induction n s e l r rule: probeOrder.induct)
  case (1 n s e l r)
  show ?case
  proof (cases "l \<ge> s \<or> r \<le> e - int n")
    case True
    have IH: "sorted_wrt (\<lambda>i j. \<bar>i - mid\<bar> \<le> \<bar>j - mid\<bar>)
       (probeOrder n s e (if l \<ge> s then l - 1 else l) (if r \<le> e - int n then r + 1 else r))"
      apply (rule 1(1)[OF True])
      using 1(2-4) by auto
    show ?thesis
      apply (subst probeOrder.simps)
      using True IH 1(2-4)
      by (auto simp add: sorted_wrt_append probeOrder_set)
  next
    case False
    then show ?thesis
      by (subst probeOrder.simps) auto
  qed
qed

lemma probe_cases:
  "probe ol sl i st = (if bestMatchScore st < candidateScore ol sl i
     then \<lparr>matchIndex = i, bestMatchScore = candidateScore ol sl i, bestMatchContent = candidateChunk ol sl i\<rparr>
     else st)"
  by (simp add: probe_def Let_def)

lemma fold_probe_cases:
  "(fold (probe ol sl) xs st0 = st0 \<and> (\<forall>j\<in>set xs. candidateScore ol sl j \<le> bestMatchScore st0))
   \<or> (\<exists>ys zs. xs = ys @ matchIndex (fold (probe ol sl) xs st0) # zs
         \<and> bestMatchScore (fold (probe ol sl) xs st0) = candidateScore ol sl (matchIndex (fold (probe ol sl) xs st0))
         \<and> bestMatchContent (fold (probe ol sl) xs st0) = candidateChunk ol sl (matchIndex (fold (probe ol sl) xs st0))
         \<and> bestMatchScore st0 < bestMatchScore (fold (probe ol sl) xs st0)
         \<and> (\<forall>j\<in>set ys. candidateScore ol sl j < bestMatchScore (fold (probe ol sl) xs st0))
         \<and> (\<forall>j\<in>set zs. candidateScore ol sl j \<le> bestMatchScore (fold (probe ol sl) xs st0)))"
  (is "?A xs st0 \<or> ?B xs st0")
proof (induction xs arbitrary: st0)
  case Nil
  then show ?case by simp
next
  case (Cons x xs)
  let ?st1 = "probe ol sl x st0"
  let ?st = "fold (probe ol sl) xs ?st1"
  have f: "fold (probe ol sl) (x # xs) st0 = ?st" by simp
  show ?case
  proof (cases "bestMatchScore st0 < candidateScore ol sl x")
    case True
    then have st1: "?st1 = \<lparr>matchIndex = x, bestMatchScore = candidateScore ol sl x, bestMatchContent = candidateChunk ol sl x\<rparr>"
      by (simp add: probe_cases)
    from Cons.IH[of ?st1] show ?thesis
    proof
      assume a: "?A xs ?st1"
      then have "?st = ?st1" by simp
      then have "?B (x # xs) st0"
        unfolding f using a st1 True
        by (intro exI[of _ "[]"] exI[of _ xs]) simp
      then show ?thesis ..
    next
      assume "?B xs ?st1"
      then obtain ys zs where b: "xs = ys @ matchIndex ?st # zs"
         "bestMatchScore ?st = candidateScore ol sl (matchIndex ?st)"
         "bestMatchContent ?st = candidateChunk ol sl (matchIndex ?st)"
         "bestMatchScore ?st1 < bestMatchScore ?st"
         "\<forall>j\<in>set ys. candidateScore ol sl j < bestMatchScore ?st"
         "\<forall>j\<in>set zs. candidateScore ol sl j \<le> bestMatchScore ?st"
        by blast
      have "?B (x # xs) st0"
        unfolding f using b st1 True
        by (intro exI[of _ "x # ys"] exI[of _ zs]) auto
      then show ?thesis ..
    qed
  next
    case False
    then have st1: "?st1 = st0" by (simp add: probe_cases)
    from Cons.IH[of st0] show ?thesis
    proof
      assume a: "?A xs st0"
      then have "?A (x # xs) st0" using False st1 by simp
      then show ?thesis ..
    next
      assume "?B xs st0"
      then obtain ys zs where b: "xs = ys @ matchIndex (fold (probe ol sl) xs st0) # zs"
         "bestMatchScore (fold (probe ol sl) xs st0) = candidateScore ol sl (matchIndex (fold (probe ol sl) xs st0))"
         "bestMatchContent (fold (probe ol sl) xs st0) = candidateChunk ol sl (matchIndex (fold (probe ol sl) xs st0))"
         "bestMatchScore st0 < bestMatchScore (fold (probe ol sl) xs st0)"
         "\<forall>j\<in>set ys. candidateScore ol sl j < bestMatchScore (fold (probe ol sl) xs st0)"
         "\<forall>j\<in>set zs. candidateScore ol sl j \<le> bestMatchScore (fold (probe ol sl) xs st0)"
        by blast
      have "?B (x # xs) st0"
        unfolding f st1 using b False
        by (intro exI[of _ "x # ys"] exI[of _ zs]) auto
      then show ?thesis ..
    qed
  qed
qed

lemma fold_probe_mono:
  "bestMatchScore st0 \<le> bestMatchScore (fold (probe ol sl) xs st0)"
proof (induction xs arbitrary: st0)
  case Nil
  show ?case by simp
next
  case (Cons x xs)
  have "bestMatchScore st0 \<le> bestMatchScore (probe ol sl x st0)"
    by (simp add: probe_cases)
  also have "\<dots> \<le> bestMatchScore (fold (probe ol sl) xs (probe ol sl x st0))"
    by (rule Cons.IH)
  finally show ?case by simp
qed

lemma scan_best_upper:
  "j \<in> set xs \<Longrightarrow> candidateScore ol sl j \<le> bestMatchScore (fold (probe ol sl) xs st0)"
proof (induction xs arbitrary: st0)
  case Nil
  then show ?case by simp
next
  case (Cons x xs)
  show ?case
  proof (cases "j = x")
    case True
    have "candidateScore ol sl x \<le> bestMatchScore (probe ol sl x st0)"
      by (simp add: probe_cases)
    also have "\<dots> \<le> bestMatchScore (fold (probe ol sl) xs (probe ol sl x st0))"
      by (rule fold_probe_mono)
    finally show ?thesis using True by simp
  next
    case False
    with Cons.prems have "j \<in> set xs" by simp
    from Cons.IH[OF this] show ?thesis by simp
  qed
qed

lemma scan_index:
  "matchIndex (fold (probe ol sl) xs st0) = matchIndex st0
   \<or> matchIndex (fold (probe ol sl) xs st0) \<in> set xs"
proof -
  let ?st = "fold (probe ol sl) xs st0"
  from fold_probe_cases[of ol sl xs st0]
  have "?st = st0 \<or> (\<exists>ys zs. xs = ys @ matchIndex ?st # zs)" by blast
  then show ?thesis
  proof
    assume "?st = st0"
    then show ?thesis by simp
  next
    assume "\<exists>ys zs. xs = ys @ matchIndex ?st # zs"
    then have "matchIndex ?st \<in> set xs" by (simp add: in_set_conv_decomp)
    then show ?thesis ..
  qed
qed

lemma middleOutSearch_fold:
  "middleOutSearch ol sl s e st =
     fold (probe ol sl) (probeOrder (length sl) s e ((s + e) div 2) ((s + e) div 2 + 1)) st"
  by (simp add: middleOutSearch_def Let_def middleOut_fold)

subsection \<open>Indentation of the replacement\<close>

lemma indentReplaceLine_spec:
  "indentReplaceLine m b line = specIndentLine m b line"
  unfolding indentReplaceLine_def specIndentLine_def truncateBy_def Let_def
  by (auto simp add: slice_take sliceFrom_drop max_def intro: arg_cong2[where f=take])

lemma first_matched_indent:
  assumes "0 \<le> mi" "mi < int (length ol)" "sl \<noteq> []"
  shows "firstOrEmpty (map leadingIndent (slice ol mi (mi + int (length sl))))
           = leadingIndent (ol ! nat mi)"
proof -
  from assms obtain x xs where d: "drop (nat mi) ol = x # xs" and x: "x = ol ! nat mi"
    by (metis Cons_nth_drop_Suc nat_less_iff)
  from assms obtain n where n: "length sl = Suc n" by (cases sl) auto
  have "nat (1 + int n) = Suc n" by simp
  then show ?thesis using assms d x n
    by (simp add: slice_take_drop firstOrEmpty_def)
qed

lemma first_search_indent:
  "sl \<noteq> [] \<Longrightarrow> firstOrEmpty (map leadingIndent sl) = leadingIndent (hd sl)"
  by (cases sl) (simp_all add: firstOrEmpty_def)

text \<open>
  Claim C4. With \<open>matchedIndent\<close> the leading tabs and spaces of the first matched
  original line and \<open>searchBaseIndent\<close> those of the first SEARCH line, every REPLACE
  line is rewritten by the rule of the specification: for a negative relative level the
  matched indent truncated by its absolute value (never below empty), otherwise the
  matched indent followed by the part of the line's own indent beyond the length of the
  search base indent; then the trimmed line.
\<close>

theorem indentation_follows_spec:
  assumes "0 \<le> mi" and "mi < int (length originalLines)" and "searchLines \<noteq> []"
  shows "indentedReplaceLines originalLines searchLines replaceLines mi =
           map (specIndentLine (leadingIndent (originalLines ! nat mi))
                  (leadingIndent (hd searchLines))) replaceLines"
  using first_matched_indent[OF assms] first_search_indent[OF assms(3)]
  by (simp add: indentedReplaceLines_def Let_def indentReplaceLine_spec)

theorem indentation_follows_spec_witness:
  "(0::int) \<le> 0 \<and> (0::int) < int (length [''    if x:''])
   \<and> [''  if x:''] \<noteq> []
   \<and> indentedReplaceLines [''    if x:''] [''  if x:''] [''  if y:'', ''    z'', ''w  ''] 0
       = [''    if y:'', ''      z'', ''  w'']"
  using indentation_follows_spec[of 0 "[''    if x:'']" "[''  if x:'']"
          "[''  if y:'', ''    z'', ''w  '']"]
  by (simp add: specIndentLine_def truncateBy_def leadingIndent_def isIndentChar_def
        trim_def isSpace_def)

subsection \<open>Tie-break of the scan\<close>

text \<open>
  Claim C3, as the code has it. The scan probes the start indices from \<open>searchStartIndex\<close>
  up to the larger of the midpoint and \<open>searchEndIndex - searchLines.length\<close>, outward
  from the midpoint \<open>(searchStartIndex + searchEndIndex) div 2\<close> of the window, and
  replaces the best on a strictly greater score only. So among the probed candidates
  that reach the best score, the one it selects is closest to the midpoint of the window.
\<close>

theorem tie_break_closest_to_midpoint:
  assumes "best = middleOutSearch ol sl s e initialBest"
    and "matchIndex best \<noteq> - 1"
    and "s \<le> j" and "j \<le> (s + e) div 2 \<or> j \<le> e - int (length sl)"
    and "candidateScore ol sl j = bestMatchScore best"
  shows "\<bar>matchIndex best - (s + e) div 2\<bar> \<le> \<bar>j - (s + e) div 2\<bar>"
proof -
  let ?mid = "(s + e) div 2"
  let ?xs = "probeOrder (length sl) s e ?mid (?mid + 1)"
  have best: "best = fold (probe ol sl) ?xs initialBest"
    using assms(1) by (simp add: middleOutSearch_fold)
  have jin: "j \<in> set ?xs"
    using assms(3,4) by (auto simp add: probeOrder_set)
  have sorted: "sorted_wrt (\<lambda>i k. \<bar>i - ?mid\<bar> \<le> \<bar>k - ?mid\<bar>) ?xs"
    by (rule probeOrder_sorted) auto
  from fold_probe_cases[of ol sl ?xs initialBest]
  show ?thesis
  proof
    assume "fold (probe ol sl) ?xs initialBest = initialBest
      \<and> (\<forall>j\<in>set ?xs. candidateScore ol sl j \<le> bestMatchScore initialBest)"
    then have "matchIndex best = - 1" using best by (simp add: initialBest_def)
    with assms(2) show ?thesis by simp
  next
    assume "\<exists>ys zs. ?xs = ys @ matchIndex (fold (probe ol sl) ?xs initialBest) # zs
         \<and> bestMatchScore (fold (probe ol sl) ?xs initialBest) = candidateScore ol sl (matchIndex (fold (probe ol sl) ?xs initialBest))
         \<and> bestMatchContent (fold (probe ol sl) ?xs initialBest) = candidateChunk ol sl (matchIndex (fold (probe ol sl) ?xs initialBest))
         \<and> bestMatchScore initialBest < bestMatchScore (fold (probe ol sl) ?xs initialBest)
         \<and> (\<forall>j\<in>set ys. candidateScore ol sl j < bestMatchScore (fold (probe ol sl) ?xs initialBest))
         \<and> (\<forall>j\<in>set zs. candidateScore ol sl j \<le> bestMatchScore (fold (probe ol sl) ?xs initialBest))"
    then obtain ys zs where d: "?xs = ys @ matchIndex best # zs"
      and ys: "\<forall>j\<in>set ys. candidateScore ol sl j < bestMatchScore best"
      unfolding best[symmetric] by blast
    from jin d have "j \<in> set ys \<or> j = matchIndex best \<or> j \<in> set zs" by auto
    moreover have "j \<notin> set ys" using ys assms(5) by auto
    moreover have "j \<in> set zs \<Longrightarrow> ?thesis"
      using sorted unfolding d by (auto simp add: sorted_wrt_append)
    ultimately show ?thesis by auto
  qed
qed

theorem tie_break_closest_to_midpoint_witness:
  "matchIndex (middleOutSearch [''x'', ''a'', ''y'', ''a'', ''z''] [''a''] 0 5 initialBest) \<noteq> - 1
   \<and> (0::int) \<le> 1 \<and> (1::int) \<le> (0 + 5) div 2
   \<and> candidateScore [''x'', ''a'', ''y'', ''a'', ''z''] [''a''] 1
       = bestMatchScore (middleOutSearch [''x'', ''a'', ''y'', ''a'', ''z''] [''a''] 0 5 initialBest)
   \<and> \<bar>matchIndex (middleOutSearch [''x'', ''a'', ''y'', ''a'', ''z''] [''a''] 0 5 initialBest)
        - (0 + 5) div 2\<bar> \<le> \<bar>1 - (0 + 5) div 2\<bar>"
proof -
  let ?ol = "[''x'', ''a'', ''y'', ''a'', ''z'']"
  let ?best = "middleOutSearch ?ol [''a''] 0 5 initialBest"
  have v: "?best = \<lparr>matchIndex = 3, bestMatchScore = 1, bestMatchContent = ''a''\<rparr>"
    by code_simp
  have c: "candidateScore ?ol [''a''] 1 = 1"
    by code_simp
  have "\<bar>matchIndex ?best - (0 + 5) div 2\<bar> \<le> \<bar>1 - (0 + 5) div 2\<bar>"
    by (rule tie_break_closest_to_midpoint[of ?best ?ol "[''a'']" 0 5 1])
       (simp_all add: v c)
  then show ?thesis by (simp add: v c)
qed

text \<open>
  The midpoint of a clamped window is not the hinted location: with the hint on line 1
  of five lines the window is the whole document, the scan starts at index 2 and
  selects index 3, although the candidate at index 1 has the same score and lies
  closer to the hinted index 0.
\<close>

theorem tie_break_hint_counterexample:
  "findMatch defaultStrategy [''x'', ''a'', ''y'', ''a'', ''z''] [''a''] (Some 1) (Some 1)
       = Inr \<lparr>matchIndex = 3, bestMatchScore = 1, bestMatchContent = ''a''\<rparr>
   \<and> candidateScore [''x'', ''a'', ''y'', ''a'', ''z''] [''a''] 1 = 1
   \<and> \<bar>(1::int) - (1 - 1)\<bar> < \<bar>3 - (1 - 1)\<bar>"
  by code_simp

subsection \<open>The window after a failed hinted check\<close>

lemma findMatch_hinted_fallback:
  assumes "1 \<le> startLine" "startLine \<le> endLine" "endLine \<le> int (length ol)"
    and "getSimilarity (joinWith [LF] (slice ol (startLine - 1) endLine)) (joinWith [LF] sl)
           < fuzzyThreshold cfg"
    and "searchWindow cfg ol startLine endLine = (s, e)"
  shows "findMatch cfg ol sl (Some startLine) (Some endLine)
           = Inr (fold (probe ol sl)
                   (probeOrder (length sl) s e ((s + e) div 2) ((s + e) div 2 + 1)) initialBest)"
  using assms
  by (simp add: findMatch_def truthy_def hintValue_def Let_def middleOutSearch_fold)

text \<open>
  Claim C9, as the code has it. For a non-negative buffer, when the hinted exact check
  stays below the threshold, the scan runs in the window
  \<open>[startLine - bufferLines - 1, endLine + bufferLines]\<close> clamped to the document; the
  window contains the hinted range, and the scan probes the hinted start index
  \<open>startLine - 1\<close> whenever a candidate of the SEARCH block's length starting there
  still fits inside the window.
\<close>

theorem hinted_fallback_window:
  assumes "0 \<le> bufferLines cfg"
    and "1 \<le> startLine" and "startLine \<le> endLine" and "endLine \<le> int (length ol)"
    and "getSimilarity (joinWith [LF] (slice ol (startLine - 1) endLine)) (joinWith [LF] sl)
           < fuzzyThreshold cfg"
    and "searchWindow cfg ol startLine endLine = (s, e)"
  shows "findMatch cfg ol sl (Some startLine) (Some endLine)
           = Inr (fold (probe ol sl)
                   (probeOrder (length sl) s e ((s + e) div 2) ((s + e) div 2 + 1)) initialBest)
       \<and> 0 \<le> s \<and> s \<le> startLine - 1 \<and> endLine \<le> e \<and> e \<le> int (length ol)
       \<and> (startLine - 1 + int (length sl) \<le> e \<longrightarrow>
            startLine - 1 \<in> set (probeOrder (length sl) s e ((s + e) div 2) ((s + e) div 2 + 1)))"
proof -
  have s: "s = max 0 (startLine - (bufferLines cfg + 1))"
    and e: "e = min (int (length ol)) (endLine + bufferLines cfg)"
    using assms(6) by (auto simp add: searchWindow_def)
  have w: "0 \<le> s \<and> s \<le> startLine - 1 \<and> endLine \<le> e \<and> e \<le> int (length ol)"
    using assms(1-4) unfolding s e by auto
  have p: "startLine - 1 + int (length sl) \<le> e \<longrightarrow>
            startLine - 1 \<in> set (probeOrder (length sl) s e ((s + e) div 2) ((s + e) div 2 + 1))"
    using w by (auto simp add: probeOrder_set)
  show ?thesis
    using findMatch_hinted_fallback[OF assms(2-6)] w p by blast
qed

theorem hinted_fallback_window_witness:
  "0 \<le> bufferLines defaultStrategy \<and> (1::int) \<le> 3 \<and> (3::int) \<le> 3
   \<and> 3 \<le> int (length [''a'', ''b'', ''c''])
   \<and> getSimilarity (joinWith [LF] (slice [''a'', ''b'', ''c''] (3 - 1) 3)) (joinWith [LF] [''x''])
        < fuzzyThreshold defaultStrategy
   \<and> searchWindow defaultStrategy [''a'', ''b'', ''c''] 3 3 = (0, 3)
   \<and> 3 - 1 + int (length [''x'']) \<le> 3
   \<and> findMatch defaultStrategy [''a'', ''b'', ''c''] [''x''] (Some 3) (Some 3)
        = Inr (fold (probe [''a'', ''b'', ''c''] [''x''])
                (probeOrder (length [''x'']) 0 3 ((0 + 3) div 2) ((0 + 3) div 2 + 1)) initialBest)
   \<and> (3::int) - 1 \<in> set (probeOrder (length [''x'']) 0 3 ((0 + 3) div 2) ((0 + 3) div 2 + 1))"
proof -
  have a: "0 \<le> bufferLines defaultStrategy" by (simp add: defaultStrategy_def)
  have b: "(1::int) \<le> 3" and c: "(3::int) \<le> 3" by simp_all
  have d: "3 \<le> int (length [''a'', ''b'', ''c''])" by simp
  have e: "getSimilarity (joinWith [LF] (slice [''a'', ''b'', ''c''] (3 - 1) 3))
             (joinWith [LF] [''x'']) < fuzzyThreshold defaultStrategy"
    by code_simp
  have f: "searchWindow defaultStrategy [''a'', ''b'', ''c''] 3 3 = (0, 3)"
    by (simp add: searchWindow_def defaultStrategy_def)
  have g: "3 - 1 + int (length [''x'']) \<le> 3" by simp
  from hinted_fallback_window[OF a b c d e f] g a b c d e f
  show ?thesis by blast
qed

text \<open>
  A SEARCH block longer than the hinted range need not be probed at the hinted start:
  with a hint on the last of three lines and a two-line SEARCH block the window is the
  whole document, and the scan probes the indices 1 and 0 only.
\<close>

theorem hinted_start_not_probed_counterexample:
  "searchWindow defaultStrategy [''a'', ''b'', ''c''] 3 3 = (0, 3)
   \<and> getSimilarity (joinWith [LF] (slice [''a'', ''b'', ''c''] (3 - 1) 3))
        (joinWith [LF] [''x'', ''y'']) < fuzzyThreshold defaultStrategy
   \<and> findMatch defaultStrategy [''a'', ''b'', ''c''] [''x'', ''y''] (Some 3) (Some 3)
        = Inr (fold (probe [''a'', ''b'', ''c''] [''x'', ''y''])
                (probeOrder 2 0 3 ((0 + 3) div 2) ((0 + 3) div 2 + 1)) initialBest)
   \<and> probeOrder 2 0 3 ((0 + 3) div 2) ((0 + 3) div 2 + 1) = [1, 0]
   \<and> (3::int) - 1 \<notin> set (probeOrder 2 0 3 ((0 + 3) div 2) ((0 + 3) div 2 + 1))"
  by code_simp

subsection \<open>The result of applyDiff\<close>

lemma probeOrder_nonneg:
  assumes "0 \<le> s" and "i \<in> set (probeOrder n s e ((s + e) div 2) ((s + e) div 2 + 1))"
  shows "0 \<le> i"
proof -
  from assms(2) have "s \<le> i \<or> ((s + e) div 2 + 1 \<le> i \<and> i \<le> e - int n)"
    by (auto simp add: probeOrder_set)
  then show ?thesis using assms(1) by linarith
qed

lemma middleOutSearch_index:
  assumes "0 \<le> s"
  shows "matchIndex (middleOutSearch ol sl s e initialBest) = - 1
         \<or> 0 \<le> matchIndex (middleOutSearch ol sl s e initialBest)"
proof -
  let ?xs = "probeOrder (length sl) s e ((s + e) div 2) ((s + e) div 2 + 1)"
  have "matchIndex (fold (probe ol sl) ?xs initialBest) = matchIndex initialBest
     \<or> matchIndex (fold (probe ol sl) ?xs initialBest) \<in> set ?xs"
    by (rule scan_index)
  then show ?thesis
  proof
    assume "matchIndex (fold (probe ol sl) ?xs initialBest) = matchIndex initialBest"
    then show ?thesis by (simp add: middleOutSearch_fold initialBest_def)
  next
    assume "matchIndex (fold (probe ol sl) ?xs initialBest) \<in> set ?xs"
    from probeOrder_nonneg[OF assms this] show ?thesis
      by (simp add: middleOutSearch_fold)
  qed
qed

lemma findMatch_unhinted:
  "\<not> (truthy startLine \<and> truthy endLine) \<Longrightarrow>
     findMatch cfg ol sl startLine endLine
       = Inr (middleOutSearch ol sl 0 (int (length ol)) initialBest)"
  by (cases "truthy startLine"; cases "truthy endLine"; simp add: findMatch_def)

lemma findMatch_invalid:
  "truthy startLine \<Longrightarrow> truthy endLine \<Longrightarrow>
   hintValue startLine < 1 \<or> int (length ol) < hintValue endLine
     \<or> hintValue endLine < hintValue startLine \<Longrightarrow>
     findMatch cfg ol sl startLine endLine
       = Inl (InvalidLineRange (hintValue startLine) (hintValue endLine) (length ol))"
  by (auto simp add: findMatch_def Let_def)

lemma findMatch_exact:
  "truthy startLine \<Longrightarrow> truthy endLine \<Longrightarrow>
   1 \<le> hintValue startLine \<Longrightarrow> hintValue endLine \<le> int (length ol) \<Longrightarrow>
   hintValue startLine \<le> hintValue endLine \<Longrightarrow>
   fuzzyThreshold cfg \<le> getSimilarity
      (joinWith [LF] (slice ol (hintValue startLine - 1) (hintValue endLine)))
      (joinWith [LF] sl) \<Longrightarrow>
     findMatch cfg ol sl startLine endLine
       = Inr \<lparr>matchIndex = hintValue startLine - 1,
              bestMatchScore = getSimilarity
                (joinWith [LF] (slice ol (hintValue startLine - 1) (hintValue endLine)))
                (joinWith [LF] sl),
              bestMatchContent =
                joinWith [LF] (slice ol (hintValue startLine - 1) (hintValue endLine))\<rparr>"
  by (simp add: findMatch_def Let_def)

lemma findMatch_fallback:
  "truthy startLine \<Longrightarrow> truthy endLine \<Longrightarrow>
   1 \<le> hintValue startLine \<Longrightarrow> hintValue endLine \<le> int (length ol) \<Longrightarrow>
   hintValue startLine \<le> hintValue endLine \<Longrightarrow>
   getSimilarity
      (joinWith [LF] (slice ol (hintValue startLine - 1) (hintValue endLine)))
      (joinWith [LF] sl) < fuzzyThreshold cfg \<Longrightarrow>
     findMatch cfg ol sl startLine endLine
       = Inr (middleOutSearch ol sl
                (max 0 (hintValue startLine - (bufferLines cfg + 1)))
                (min (int (length ol)) (hintValue endLine + bufferLines cfg)) initialBest)"
  by (simp add: findMatch_def Let_def searchWindow_def)

lemma findMatch_index:
  assumes "findMatch cfg ol sl startLine endLine = Inr best"
  shows "matchIndex best = - 1 \<or> 0 \<le> matchIndex best"
proof (cases "truthy startLine \<and> truthy endLine")
  case False
  from findMatch_unhinted[OF False, of cfg ol sl] assms
  have "best = middleOutSearch ol sl 0 (int (length ol)) initialBest" by simp
  then show ?thesis using middleOutSearch_index[of 0 ol sl "int (length ol)"] by simp
next
  case True
  then have t: "truthy startLine" "truthy endLine" by simp_all
  show ?thesis
  proof (cases "hintValue startLine < 1 \<or> int (length ol) < hintValue endLine
     \<or> hintValue endLine < hintValue startLine")
    case True
    from findMatch_invalid[OF t True, of cfg sl] assms show ?thesis by simp
  next
    case False
    then have r: "1 \<le> hintValue startLine" "hintValue endLine \<le> int (length ol)"
      "hintValue startLine \<le> hintValue endLine" by simp_all
    let ?sim = "getSimilarity
      (joinWith [LF] (slice ol (hintValue startLine - 1) (hintValue endLine)))
      (joinWith [LF] sl)"
    show ?thesis
    proof (cases "fuzzyThreshold cfg \<le> ?sim")
      case True
      from findMatch_exact[OF t r True] assms
      have "matchIndex best = hintValue startLine - 1" by auto
      then show ?thesis using r by simp
    next
      case False
      then have "?sim < fuzzyThreshold cfg" by simp
      from findMatch_fallback[OF t r this] assms
      have "best = middleOutSearch ol sl
                (max 0 (hintValue startLine - (bufferLines cfg + 1)))
                (min (int (length ol)) (hintValue endLine + bufferLines cfg)) initialBest"
        by simp
      then show ?thesis
        using middleOutSearch_index[of "max 0 (hintValue startLine - (bufferLines cfg + 1))"
           ol sl "min (int (length ol)) (hintValue endLine + bufferLines cfg)"]
        by simp
    qed
  qed
qed

lemma applyDiffBlocks_unfold:
  "applyDiffBlocks cfg oc sc0 rc0 startLine endLine =
     (if searchLinesOf sc0 rc0 = [] \<and> \<not> truthy startLine then Failure EmptySearchNeedsStartLine
      else if searchLinesOf sc0 rc0 = [] \<and> truthy startLine \<and> truthy endLine
                \<and> hintValue startLine \<noteq> hintValue endLine
      then Failure (EmptySearchNeedsSameLine (hintValue startLine) (hintValue endLine))
      else (case findMatch cfg (splitLines oc) (searchLinesOf sc0 rc0) startLine endLine of
              Inl err \<Rightarrow> Failure err
            | Inr best \<Rightarrow>
                if matchIndex best = - 1 \<or> bestMatchScore best < fuzzyThreshold cfg
                then Failure (NoSufficientMatch best (fuzzyThreshold cfg))
                else Success (joinWith (lineEndingOf oc)
                   (spliceLines (splitLines oc) (searchLinesOf sc0 rc0) (replaceLinesOf sc0 rc0)
                      (matchIndex best)))))"
proof (cases "normalizeBlocks sc0 rc0")
  case (Pair sc rc)
  show ?thesis
    unfolding applyDiffBlocks_def searchLinesOf_def replaceLinesOf_def Let_def Pair
      fst_conv snd_conv
    by simp
qed

lemma spliceLines_take_drop:
  "0 \<le> mi \<Longrightarrow> spliceLines ol sl rl mi =
      take (nat mi) ol @ indentedReplaceLines ol sl rl mi @ drop (nat mi + length sl) ol"
  by (simp add: spliceLines_def Let_def slice_take sliceFrom_drop nat_add_distrib)

lemma applyDiffBlocks_SuccessD:
  assumes "applyDiffBlocks cfg oc sc0 rc0 startLine endLine = Success content"
  shows "\<exists>best. findMatch cfg (splitLines oc) (searchLinesOf sc0 rc0) startLine endLine = Inr best
           \<and> matchIndex best \<noteq> - 1 \<and> fuzzyThreshold cfg \<le> bestMatchScore best
           \<and> content = joinWith (lineEndingOf oc)
                (spliceLines (splitLines oc) (searchLinesOf sc0 rc0) (replaceLinesOf sc0 rc0)
                   (matchIndex best))"
proof (cases "findMatch cfg (splitLines oc) (searchLinesOf sc0 rc0) startLine endLine")
  case (Inl err)
  with assms show ?thesis
    by (simp add: applyDiffBlocks_unfold split: if_splits)
next
  case (Inr best)
  with assms show ?thesis
    by (simp add: applyDiffBlocks_unfold split: if_splits)
qed

text \<open>
  Claim C10. A successful \<open>applyDiff\<close> returns, joined with the line ending of the
  document, the original lines before the match index, then the re-indented REPLACE
  lines, then the original lines from match index plus SEARCH line count on: the lines
  outside the matched region are kept unchanged and in order.
\<close>

theorem splice_frame:
  assumes "applyDiff cfg originalContent diffContent startLine endLine = Success content"
  shows "\<exists>searchContent replaceContent best.
           parseDiff diffContent = Some (searchContent, replaceContent)
         \<and> findMatch cfg (splitLines originalContent) (searchLinesOf searchContent replaceContent)
               startLine endLine = Inr best
         \<and> 0 \<le> matchIndex best
         \<and> content = joinWith (lineEndingOf originalContent)
              (take (nat (matchIndex best)) (splitLines originalContent)
               @ indentedReplaceLines (splitLines originalContent)
                   (searchLinesOf searchContent replaceContent)
                   (replaceLinesOf searchContent replaceContent) (matchIndex best)
               @ drop (nat (matchIndex best) + length (searchLinesOf searchContent replaceContent))
                   (splitLines originalContent))"
proof -
  from assms obtain sc0 rc0 where p: "parseDiff diffContent = Some (sc0, rc0)"
    and a: "applyDiffBlocks cfg originalContent sc0 rc0 startLine endLine = Success content"
    by (cases "parseDiff diffContent") (auto simp add: applyDiff_def)
  let ?ol = "splitLines originalContent"
  let ?sl = "searchLinesOf sc0 rc0"
  let ?rl = "replaceLinesOf sc0 rc0"
  from applyDiffBlocks_SuccessD[OF a]
  obtain best where f: "findMatch cfg ?ol ?sl startLine endLine = Inr best"
    and n: "matchIndex best \<noteq> - 1"
    and c: "content = joinWith (lineEndingOf originalContent) (spliceLines ?ol ?sl ?rl (matchIndex best))"
    by blast
  from findMatch_index[OF f] n have m: "0 \<le> matchIndex best" by simp
  from c m have "content = joinWith (lineEndingOf originalContent)
              (take (nat (matchIndex best)) ?ol
               @ indentedReplaceLines ?ol ?sl ?rl (matchIndex best)
               @ drop (nat (matchIndex best) + length ?sl) ?ol)"
    by (simp add: spliceLines_take_drop)
  with p f m show ?thesis by blast
qed

theorem splice_frame_witness:
  "applyDiff defaultStrategy (''def f():'' @ [LF] @ ''    return 1'' @ [LF])
      (makeDiff ''    return 1'' ''    return 2'') (Some 2) (Some 2)
     = Success (''def f():'' @ [LF] @ ''    return 2'' @ [LF])
   \<and> (\<exists>searchContent replaceContent best.
         parseDiff (makeDiff ''    return 1'' ''    return 2'')
           = Some (searchContent, replaceContent)
       \<and> findMatch defaultStrategy (splitLines (''def f():'' @ [LF] @ ''    return 1'' @ [LF]))
            (searchLinesOf searchContent replaceContent) (Some 2) (Some 2) = Inr best
       \<and> 0 \<le> matchIndex best
       \<and> ''def f():'' @ [LF] @ ''    return 2'' @ [LF]
           = joinWith (lineEndingOf (''def f():'' @ [LF] @ ''    return 1'' @ [LF]))
              (take (nat (matchIndex best))
                 (splitLines (''def f():'' @ [LF] @ ''    return 1'' @ [LF]))
               @ indentedReplaceLines (splitLines (''def f():'' @ [LF] @ ''    return 1'' @ [LF]))
                   (searchLinesOf searchContent replaceContent)
                   (replaceLinesOf searchContent replaceContent) (matchIndex best)
               @ drop (nat (matchIndex best) + length (searchLinesOf searchContent replaceContent))
                   (splitLines (''def f():'' @ [LF] @ ''    return 1'' @ [LF]))))"
proof -
  have a: "applyDiff defaultStrategy (''def f():'' @ [LF] @ ''    return 1'' @ [LF])
      (makeDiff ''    return 1'' ''    return 2'') (Some 2) (Some 2)
     = Success (''def f():'' @ [LF] @ ''    return 2'' @ [LF])"
    by code_simp
  from splice_frame[OF a] a show ?thesis by blast
qed

subsection \<open>Failure cases\<close>

lemma scan_fails_iff:
  assumes "0 < thr" and "0 \<le> s"
  shows "(matchIndex (middleOutSearch ol sl s e initialBest) = - 1
          \<or> bestMatchScore (middleOutSearch ol sl s e initialBest) < thr)
         \<longleftrightarrow> list_all (\<lambda>i. candidateScore ol sl i < thr)
               (probeOrder (length sl) s e ((s + e) div 2) ((s + e) div 2 + 1))"
proof -
  let ?xs = "probeOrder (length sl) s e ((s + e) div 2) ((s + e) div 2 + 1)"
  let ?st = "fold (probe ol sl) ?xs initialBest"
  have st: "middleOutSearch ol sl s e initialBest = ?st" by (rule middleOutSearch_fold)
  from fold_probe_cases[of ol sl ?xs initialBest]
  have cases: "(?st = initialBest \<and> (\<forall>j\<in>set ?xs. candidateScore ol sl j \<le> 0))
     \<or> (matchIndex ?st \<in> set ?xs \<and> bestMatchScore ?st = candidateScore ol sl (matchIndex ?st))"
  proof
    assume "?st = initialBest \<and> (\<forall>j\<in>set ?xs. candidateScore ol sl j \<le> bestMatchScore initialBest)"
    then show ?thesis by (simp add: initialBest_def)
  next
    assume "\<exists>ys zs. ?xs = ys @ matchIndex ?st # zs
         \<and> bestMatchScore ?st = candidateScore ol sl (matchIndex ?st)
         \<and> bestMatchContent ?st = candidateChunk ol sl (matchIndex ?st)
         \<and> bestMatchScore initialBest < bestMatchScore ?st
         \<and> (\<forall>j\<in>set ys. candidateScore ol sl j < bestMatchScore ?st)
         \<and> (\<forall>j\<in>set zs. candidateScore ol sl j \<le> bestMatchScore ?st)"
    then obtain ys zs where d: "?xs = ys @ matchIndex ?st # zs"
      and b: "bestMatchScore ?st = candidateScore ol sl (matchIndex ?st)" by blast
    from d have "matchIndex ?st \<in> set ?xs" by (subst in_set_conv_decomp) blast
    with b show ?thesis by blast
  qed
  show ?thesis unfolding st list_all_iff
  proof
    assume f: "matchIndex ?st = - 1 \<or> bestMatchScore ?st < thr"
    show "\<forall>i\<in>set ?xs. candidateScore ol sl i < thr"
    proof
      fix i assume i: "i \<in> set ?xs"
      from cases show "candidateScore ol sl i < thr"
      proof
        assume "?st = initialBest \<and> (\<forall>j\<in>set ?xs. candidateScore ol sl j \<le> 0)"
        with i have "candidateScore ol sl i \<le> 0" by blast
        with assms(1) show ?thesis by simp
      next
        assume m: "matchIndex ?st \<in> set ?xs \<and> bestMatchScore ?st = candidateScore ol sl (matchIndex ?st)"
        then have "0 \<le> matchIndex ?st" using probeOrder_nonneg[OF assms(2)] by blast
        with f have "bestMatchScore ?st < thr" by auto
        moreover have "candidateScore ol sl i \<le> bestMatchScore ?st"
          using i by (rule scan_best_upper)
        ultimately show ?thesis by simp
      qed
    qed
  next
    assume a: "\<forall>i\<in>set ?xs. candidateScore ol sl i < thr"
    from cases show "matchIndex ?st = - 1 \<or> bestMatchScore ?st < thr"
    proof
      assume "?st = initialBest \<and> (\<forall>j\<in>set ?xs. candidateScore ol sl j \<le> 0)"
      then show ?thesis by (simp add: initialBest_def)
    next
      assume "matchIndex ?st \<in> set ?xs \<and> bestMatchScore ?st = candidateScore ol sl (matchIndex ?st)"
      with a show ?thesis by auto
    qed
  qed
qed

lemma belowThreshold_unhinted:
  assumes "\<not> (truthy startLine \<and> truthy endLine)"
  shows "belowThreshold cfg ol sl startLine endLine =
           list_all (\<lambda>i. candidateScore ol sl i < fuzzyThreshold cfg)
             (probeOrder (length sl) 0 (int (length ol))
                ((0 + int (length ol)) div 2) ((0 + int (length ol)) div 2 + 1))"
  unfolding belowThreshold_def if_not_P[OF assms] by (rule refl)

lemma belowThreshold_hinted:
  assumes "truthy startLine \<and> truthy endLine"
  shows "belowThreshold cfg ol sl startLine endLine =
          (getSimilarity
             (joinWith [LF] (slice ol (hintValue startLine - 1) (hintValue endLine)))
             (joinWith [LF] sl) < fuzzyThreshold cfg
           \<and> list_all (\<lambda>i. candidateScore ol sl i < fuzzyThreshold cfg)
                (probeOrder (length sl)
                   (max 0 (hintValue startLine - (bufferLines cfg + 1)))
                   (min (int (length ol)) (hintValue endLine + bufferLines cfg))
                   ((max 0 (hintValue startLine - (bufferLines cfg + 1))
                     + min (int (length ol)) (hintValue endLine + bufferLines cfg)) div 2)
                   ((max 0 (hintValue startLine - (bufferLines cfg + 1))
                     + min (int (length ol)) (hintValue endLine + bufferLines cfg)) div 2 + 1)))"
  unfolding belowThreshold_def if_P[OF assms] searchWindow_def by simp

lemma applyDiffBlocks_fails_iff:
  assumes thr: "0 < fuzzyThreshold cfg"
  shows "(\<exists>err. applyDiffBlocks cfg oc sc rc startLine endLine = Failure err) \<longleftrightarrow>
      (searchLinesOf sc rc = [] \<and> \<not> truthy startLine)
    \<or> (searchLinesOf sc rc = [] \<and> truthy startLine \<and> truthy endLine
         \<and> hintValue startLine \<noteq> hintValue endLine)
    \<or> (truthy startLine \<and> truthy endLine
         \<and> (hintValue startLine < 1 \<or> int (length (splitLines oc)) < hintValue endLine
              \<or> hintValue endLine < hintValue startLine))
    \<or> belowThreshold cfg (splitLines oc) (searchLinesOf sc rc) startLine endLine"
  (is "?F \<longleftrightarrow> ?c1 \<or> ?c2 \<or> ?c3 \<or> ?c4")
proof (cases "?c1 \<or> ?c2")
  case True
  then have "?F" by (auto simp add: applyDiffBlocks_unfold)
  with True show ?thesis by blast
next
  case n12: False
  let ?ol = "splitLines oc"
  let ?sl = "searchLinesOf sc rc"
  let ?rl = "replaceLinesOf sc rc"
  have unf: "applyDiffBlocks cfg oc sc rc startLine endLine =
      (case findMatch cfg ?ol ?sl startLine endLine of
              Inl err \<Rightarrow> Failure err
            | Inr best \<Rightarrow>
                if matchIndex best = - 1 \<or> bestMatchScore best < fuzzyThreshold cfg
                then Failure (NoSufficientMatch best (fuzzyThreshold cfg))
                else Success (joinWith (lineEndingOf oc)
                   (spliceLines ?ol ?sl ?rl (matchIndex best))))"
    using n12 by (subst applyDiffBlocks_unfold) auto
  show ?thesis
  proof (cases "truthy startLine \<and> truthy endLine")
    case False
    let ?best = "middleOutSearch ?ol ?sl 0 (int (length ?ol)) initialBest"
    have fm: "findMatch cfg ?ol ?sl startLine endLine = Inr ?best"
      by (rule findMatch_unhinted[OF False])
    have "?F \<longleftrightarrow> (matchIndex ?best = - 1 \<or> bestMatchScore ?best < fuzzyThreshold cfg)"
      unfolding unf fm by simp
    also have "\<dots> \<longleftrightarrow> ?c4"
      using scan_fails_iff[OF thr, of 0 ?ol ?sl "int (length ?ol)"]
      unfolding belowThreshold_unhinted[OF False] by simp
    finally show ?thesis using n12 False by blast
  next
    case True
    then have t: "truthy startLine" "truthy endLine" by simp_all
    show ?thesis
    proof (cases "hintValue startLine < 1 \<or> int (length ?ol) < hintValue endLine
              \<or> hintValue endLine < hintValue startLine")
      case inv: True
      have "?F" unfolding unf findMatch_invalid[OF t inv] by simp
      with inv True show ?thesis by blast
    next
      case False
      then have r: "1 \<le> hintValue startLine" "hintValue endLine \<le> int (length ?ol)"
        "hintValue startLine \<le> hintValue endLine" by simp_all
      let ?sim = "getSimilarity
        (joinWith [LF] (slice ?ol (hintValue startLine - 1) (hintValue endLine)))
        (joinWith [LF] ?sl)"
      show ?thesis
      proof (cases "fuzzyThreshold cfg \<le> ?sim")
        case ex: True
        have "\<not> ?F"
          unfolding unf findMatch_exact[OF t r ex] using r ex by simp
        moreover have "\<not> ?c4" unfolding belowThreshold_hinted[OF True] using ex by simp
        ultimately show ?thesis using n12 False by blast
      next
        case nex: False
        then have lt: "?sim < fuzzyThreshold cfg" by simp
        let ?s = "max 0 (hintValue startLine - (bufferLines cfg + 1))"
        let ?e = "min (int (length ?ol)) (hintValue endLine + bufferLines cfg)"
        let ?best = "middleOutSearch ?ol ?sl ?s ?e initialBest"
        have "?F \<longleftrightarrow> (matchIndex ?best = - 1 \<or> bestMatchScore ?best < fuzzyThreshold cfg)"
          unfolding unf findMatch_fallback[OF t r lt] by simp
        also have "\<dots> \<longleftrightarrow> ?c4"
          using scan_fails_iff[OF thr, of ?s ?ol ?sl ?e] lt
          unfolding belowThreshold_hinted[OF True] by simp
        finally show ?thesis using n12 False by blast
      qed
    qed
  qed
qed

text \<open>
  \<open>applyDiff\<close> is a total function into the result type, so nothing is thrown. At the
  default threshold 1, and with a hint read as given when it is truthy, the result is
  a failure exactly when the patch has no well-formed markers, or the SEARCH block is
  empty without a start hint, or it is empty with two different hints, or both hints
  are given and the range is out of bounds or inverted, or every scored candidate is
  below the threshold; otherwise it is a success.
\<close>

lemma failure_cases_default_threshold:
  assumes "fuzzyThreshold cfg = 1"
  shows "(parseDiff diffContent = None \<longrightarrow>
            applyDiff cfg originalContent diffContent startLine endLine
              = Failure InvalidDiffFormat)
       \<and> (\<forall>sc rc. parseDiff diffContent = Some (sc, rc) \<longrightarrow>
            ((\<exists>err. applyDiff cfg originalContent diffContent startLine endLine = Failure err)
             \<longleftrightarrow>
               (searchLinesOf sc rc = [] \<and> \<not> truthy startLine)
             \<or> (searchLinesOf sc rc = [] \<and> truthy startLine \<and> truthy endLine
                  \<and> hintValue startLine \<noteq> hintValue endLine)
             \<or> (truthy startLine \<and> truthy endLine
                  \<and> (hintValue startLine < 1
                       \<or> int (length (splitLines originalContent)) < hintValue endLine
                       \<or> hintValue endLine < hintValue startLine))
             \<or> belowThreshold cfg (splitLines originalContent) (searchLinesOf sc rc)
                  startLine endLine))
       \<and> ((\<exists>err. applyDiff cfg originalContent diffContent startLine endLine = Failure err)
            \<or> (\<exists>content. applyDiff cfg originalContent diffContent startLine endLine
                  = Success content))"
proof -
  from assms have pos: "0 < fuzzyThreshold cfg" by simp
  show ?thesis
  proof (intro conjI allI impI)
    assume "parseDiff diffContent = None"
    then show "applyDiff cfg originalContent diffContent startLine endLine
                 = Failure InvalidDiffFormat"
      by (simp add: applyDiff_def)
  next
    fix sc rc
    assume "parseDiff diffContent = Some (sc, rc)"
    then have "applyDiff cfg originalContent diffContent startLine endLine
                 = applyDiffBlocks cfg originalContent sc rc startLine endLine"
      by (simp add: applyDiff_def)
    then show "(\<exists>err. applyDiff cfg originalContent diffContent startLine endLine = Failure err)
               \<longleftrightarrow>
                 (searchLinesOf sc rc = [] \<and> \<not> truthy startLine)
               \<or> (searchLinesOf sc rc = [] \<and> truthy startLine \<and> truthy endLine
                    \<and> hintValue startLine \<noteq> hintValue endLine)
               \<or> (truthy startLine \<and> truthy endLine
                    \<and> (hintValue startLine < 1
                         \<or> int (length (splitLines originalContent)) < hintValue endLine
                         \<or> hintValue endLine < hintValue startLine))
               \<or> belowThreshold cfg (splitLines originalContent) (searchLinesOf sc rc)
                    startLine endLine"
      using applyDiffBlocks_fails_iff[OF pos, of originalContent sc rc startLine endLine]
      by simp
  next
    show "(\<exists>err. applyDiff cfg originalContent diffContent startLine endLine = Failure err)
              \<or> (\<exists>content. applyDiff cfg originalContent diffContent startLine endLine
                    = Success content)"
      by (cases "applyDiff cfg originalContent diffContent startLine endLine") auto
  qed
qed

text \<open>
  Claim C5 does not hold for the code. The range check rejects a start line below 1
  (\<open>exactStartIndex < 0\<close>) and an end line beyond the document, but it sits behind the
  test \<open>startLine && endLine\<close>, and a start line of 0 is falsy: the check is skipped, the
  whole document is scanned as if no hint were given, and the patch is applied. The
  start lines -1 and 2 on the same one-line document are rejected.
\<close>

theorem zero_hint_skips_range_check:
  "applyDiff defaultStrategy ''a'' (makeDiff ''a'' ''b'') (Some 0) (Some 1) = Success ''b''
   \<and> applyDiff defaultStrategy ''a'' (makeDiff ''a'' ''b'') (Some (- 1)) (Some 1)
       = Failure (InvalidLineRange (- 1) 1 1)
   \<and> applyDiff defaultStrategy ''a'' (makeDiff ''a'' ''b'') (Some 2) (Some 2)
       = Failure (InvalidLineRange 2 2 1)"
  by code_simp

theorem zero_hint_skips_range_check_witness:
  "\<exists>content. applyDiff defaultStrategy ''a'' (makeDiff ''a'' ''b'') (Some 0) (Some 1)
      = Success content"
  using zero_hint_skips_range_check by blast

text \<open>
  With a threshold of 0 a document whose candidates all score 0 is rejected, although
  no score is below the threshold: the best is only replaced on a score above 0.
\<close>

lemma zero_threshold_failure:
  "applyDiff \<lparr>fuzzyThreshold = 0, bufferLines = 20\<rparr> ''abc'' (makeDiff ''xyz'' ''b'') None None
     = Failure (NoSufficientMatch initialBest 0)
   \<and> bestMatchScore initialBest = 0"
  by code_simp

subsection \<open>Symmetry of the similarity\<close>

lemma editDistance_Nil2: "editDistance xs [] = length xs"
  by (cases xs) simp_all

lemma editDistance_sym: "editDistance xs ys = editDistance ys xs"
proof (induction xs ys rule: editDistance.induct)
  case (1 ys)
  show ?case by (simp add: editDistance_Nil2)
next
  case (2 v va)
  show ?case by simp
next
  case (3 x xs y ys)
  show ?case
  proof (cases "x = y")
    case True
    with 3 show ?thesis by simp
  next
    case False
    with 3 show ?thesis by (simp add: min3_def min.commute min.left_commute)
  qed
qed

lemma rowOf_Cons: "rowOf rp rpre ys = editDistance rp rpre # tl (rowOf rp rpre ys)"
  by (cases ys) simp_all

lemma levRow_rowOf:
  "levRow c ys (rowOf rp rpre ys) (editDistance (c # rp) rpre) = tl (rowOf (c # rp) rpre ys)"
proof (induction ys arbitrary: rpre)
  case Nil
  show ?case by simp
next
  case (Cons y ys)
  obtain prev where prev: "rowOf rp (y # rpre) ys = editDistance rp (y # rpre) # prev"
    using rowOf_Cons[of rp "y # rpre" ys] by blast
  have "levRow c (y # ys) (rowOf rp rpre (y # ys)) (editDistance (c # rp) rpre)
        = editDistance (c # rp) (y # rpre)
            # levRow c ys (rowOf rp (y # rpre) ys) (editDistance (c # rp) (y # rpre))"
    by (simp add: prev Let_def)
  also have "\<dots> = editDistance (c # rp) (y # rpre) # tl (rowOf (c # rp) (y # rpre) ys)"
    by (simp only: Cons.IH)
  also have "\<dots> = rowOf (c # rp) (y # rpre) ys"
    by (rule rowOf_Cons[symmetric])
  finally show ?case by simp
qed

lemma levRows_rowOf:
  "i = Suc (length rp) \<Longrightarrow> levRows as b i (rowOf rp [] b) = rowOf (rev as @ rp) [] b"
proof (induction as arbitrary: rp i)
  case Nil
  show ?case by simp
next
  case (Cons a as)
  have i: "i = editDistance (a # rp) []" using Cons.prems by simp
  have "i # levRow a b (rowOf rp [] b) i = rowOf (a # rp) [] b"
    unfolding i levRow_rowOf by (rule rowOf_Cons[symmetric])
  then have "levRows (a # as) b i (rowOf rp [] b) = levRows as b (Suc i) (rowOf (a # rp) [] b)"
    by simp
  also have "\<dots> = rowOf (rev as @ a # rp) [] b"
    by (rule Cons.IH) (simp add: Cons.prems)
  finally show ?case by simp
qed

lemma rowOf_Nil: "rowOf [] rpre ys = [length rpre..<Suc (length rpre + length ys)]"
proof (induction ys arbitrary: rpre)
  case Nil
  show ?case by simp
next
  case (Cons y ys)
  show ?case by (simp add: Cons.IH upt_conv_Cons del: upt_Suc)
qed

lemma last_rowOf: "last (rowOf rp rpre ys) = editDistance rp (rev ys @ rpre)"
proof (induction ys arbitrary: rpre)
  case Nil
  show ?case by simp
next
  case (Cons y ys)
  have "rowOf rp (y # rpre) ys \<noteq> []" using rowOf_Cons[of rp "y # rpre" ys] by auto
  then show ?case by (simp add: Cons.IH)
qed

lemma levenshteinDistance_editDistance:
  "levenshteinDistance a b = editDistance (rev a) (rev b)"
proof -
  have "[0..<Suc (length b)] = rowOf [] [] b" by (simp add: rowOf_Nil)
  then have "levRows a b 1 [0..<Suc (length b)] = rowOf (rev a) [] b"
    using levRows_rowOf[of 1 "[]" a b] by simp
  then show ?thesis by (simp add: levenshteinDistance_def last_rowOf)
qed

lemma levenshteinDistance_sym: "levenshteinDistance a b = levenshteinDistance b a"
  by (simp only: levenshteinDistance_editDistance editDistance_sym[of "rev a"])

lemma levenshteinDistance_Nil: "levenshteinDistance [] b = length b"
  by (simp add: levenshteinDistance_editDistance)

lemma getSimilarity_empty_original:
  "b \<noteq> [] \<Longrightarrow> getSimilarity [] b = (if normalizeStr b = [] then 1 else 0)"
  by (auto simp add: getSimilarity_def Let_def normalizeStr_def trim_def
        levenshteinDistance_Nil)

lemma getSimilarity_empty_search: "getSimilarity a [] = 1"
  by (simp add: getSimilarity_def)

lemma normalizeStr_Nil: "normalizeStr [] = []"
  by (simp add: normalizeStr_def trim_def)

text \<open>
  Claim C6, as the code has it. The similarity of two strings is the same in both
  orders exactly when the following holds: if one of them is the empty string, then
  both have the same normal form (so the other one is empty or all whitespace). In
  particular it is symmetric for any two non-empty strings: the normalisation is
  applied to both arguments alike, and the edit distance computed by the matrix is
  symmetric.
\<close>

theorem similarity_symmetric_iff:
  "getSimilarity a b = getSimilarity b a
     \<longleftrightarrow> (a = [] \<or> b = [] \<longrightarrow> normalizeStr a = normalizeStr b)"
proof (cases "a = []")
  case a: True
  show ?thesis
  proof (cases "b = []")
    case True
    with a show ?thesis by simp
  next
    case False
    with a show ?thesis
      by (auto simp add: getSimilarity_empty_original getSimilarity_empty_search
            normalizeStr_Nil)
  qed
next
  case a: False
  show ?thesis
  proof (cases "b = []")
    case True
    with a show ?thesis
      by (auto simp add: getSimilarity_empty_original getSimilarity_empty_search
            normalizeStr_Nil)
  next
    case False
    with a show ?thesis
      by (simp add: getSimilarity_def Let_def levenshteinDistance_sym[of "normalizeStr a"]
            max.commute eq_commute[of "normalizeStr a"])
  qed
qed

theorem similarity_symmetric_iff_witness:
  "([]::string) = [] \<and> normalizeStr [] = normalizeStr '' ''
   \<and> getSimilarity [] '' '' = getSimilarity '' '' []
   \<and> getSimilarity ''abc'' ''abd'' = 2 / 3 \<and> getSimilarity ''abd'' ''abc'' = 2 / 3"
proof -
  have n: "normalizeStr [] = normalizeStr '' ''" by code_simp
  from similarity_symmetric_iff[of "[]" "'' ''"] n
  have s1: "getSimilarity [] '' '' = getSimilarity '' '' []" by blast
  have e: "getSimilarity ''abc'' ''abd'' = 2 / 3" by code_simp
  from similarity_symmetric_iff[of "''abc''" "''abd''"]
  have "getSimilarity ''abc'' ''abd'' = getSimilarity ''abd'' ''abc''" by simp
  with e have s2: "getSimilarity ''abd'' ''abc'' = 2 / 3" by simp
  from n s1 e s2 show ?thesis by blast
qed

theorem similarity_empty_search_counterexample:
  "getSimilarity ''abc'' [] = 1 \<and> getSimilarity [] ''abc'' = 0"
  by code_simp

subsection \<open>When line numbers are stripped\<close>

lemma splitLines_nonempty: "splitLines s \<noteq> []"
  by (induction s) (auto split: list.splits)

lemma everyLineHasLineNumbers_iff:
  "everyLineHasLineNumbers content
     \<longleftrightarrow> (\<forall>line\<in>set (splitLines content). \<exists>rest. lineNumberRest line = Some rest)"
  by (simp add: everyLineHasLineNumbers_def Let_def list_all_iff splitLines_nonempty)

lemma stripLine_annotated:
  assumes "lineNumberRest line = Some rest" and "\<not> list_ex isLineTerminator rest"
  shows "stripLine line = (if rest \<noteq> [] \<and> isSpace (hd rest) then tl rest else rest)"
proof -
  have "\<not> list_ex isLineTerminator (tl rest)"
    using assms(2) by (cases rest) (simp_all add: list_ex_iff)
  with assms show ?thesis by (simp add: stripLine_def)
qed

lemma stripLine_keeps_line_with_CR:
  "lineNumberRest (''1 | a'' @ [CR] @ ''b'') = Some ('' a'' @ [CR] @ ''b'')
   \<and> stripLine (''1 | a'' @ [CR] @ ''b'') = ''1 | a'' @ [CR] @ ''b''"
  by code_simp

text \<open>
  \<open>stripLineNumbers\<close> is called on the SEARCH and the REPLACE block exactly when every
  line of both blocks passes the test; otherwise both blocks are passed on untouched,
  in particular when exactly one of them is fully annotated.
\<close>

lemma normalizeBlocks_cases:
  "normalizeBlocks searchContent replaceContent =
     (if (\<forall>line\<in>set (splitLines searchContent). \<exists>rest. lineNumberRest line = Some rest)
         \<and> (\<forall>line\<in>set (splitLines replaceContent). \<exists>rest. lineNumberRest line = Some rest)
      then (stripLineNumbers searchContent, stripLineNumbers replaceContent)
      else (searchContent, replaceContent))
   \<and> (everyLineHasLineNumbers searchContent \<noteq> everyLineHasLineNumbers replaceContent
        \<longrightarrow> normalizeBlocks searchContent replaceContent = (searchContent, replaceContent))"
  unfolding normalizeBlocks_def everyLineHasLineNumbers_iff by auto

lemma normalizeBlocks_examples:
  "normalizeBlocks ''12 | return 1'' ''13 | return 2'' = (''return 1'', ''return 2'')
   \<and> normalizeBlocks ''12 | return 1'' ''return 2'' = (''12 | return 1'', ''return 2'')"
  by code_simp

text \<open>
  Claim C8 does not hold for the code. The test \<open>everyLineHasLineNumbers\<close> looks at the
  start of each line only, while the pattern of \<open>stripLineNumbers\<close> must match the line
  to its end with \<^verbatim>\<open>(.*)$\<close>, and \<^verbatim>\<open>.\<close> matches no carriage return. In a patch whose
  blocks have CR LF line endings the last line of each block keeps its CR (the marker
  grammar takes the LF only), so both blocks pass the test, the stripping is called,
  and the annotation stays on the last line of each block.
\<close>

theorem crlf_block_keeps_annotation:
  "parseDiff (searchMarker @ ''1 | a'' @ [CR, LF] @ ''2 | b'' @ [CR, LF] @ separatorMarker
               @ ''1 | c'' @ [CR, LF] @ ''2 | d'' @ [CR, LF] @ replaceMarker)
     = Some (''1 | a'' @ [CR, LF] @ ''2 | b'' @ [CR], ''1 | c'' @ [CR, LF] @ ''2 | d'' @ [CR])
   \<and> everyLineHasLineNumbers (''1 | a'' @ [CR, LF] @ ''2 | b'' @ [CR])
   \<and> everyLineHasLineNumbers (''1 | c'' @ [CR, LF] @ ''2 | d'' @ [CR])
   \<and> normalizeBlocks (''1 | a'' @ [CR, LF] @ ''2 | b'' @ [CR])
        (''1 | c'' @ [CR, LF] @ ''2 | d'' @ [CR])
       = (''a'' @ [CR, LF] @ ''2 | b'' @ [CR], ''c'' @ [CR, LF] @ ''2 | d'' @ [CR])
   \<and> searchLinesOf (''1 | a'' @ [CR, LF] @ ''2 | b'' @ [CR])
        (''1 | c'' @ [CR, LF] @ ''2 | d'' @ [CR])
       = [''a'', ''2 | b'' @ [CR]]"
  by code_simp

theorem crlf_block_keeps_annotation_witness:
  "normalizeBlocks (''1 | a'' @ [CR, LF] @ ''2 | b'' @ [CR])
        (''1 | c'' @ [CR, LF] @ ''2 | d'' @ [CR])
     \<noteq> (''a'' @ [CR, LF] @ ''b'', ''c'' @ [CR, LF] @ ''d'')"
  using crlf_block_keeps_annotation by simp

text \<open>
  The effect on the patch: against the document with the lines \<open>a\<close> and \<open>b\<close> the
  annotated patch with LF line endings is applied, the same patch with CR LF line
  endings inside its blocks is rejected.
\<close>

lemma crlf_block_patch_rejected:
  "applyDiff defaultStrategy (''a'' @ [CR, LF] @ ''b'' @ [CR, LF])
     (makeDiff (''1 | a'' @ [LF] @ ''2 | b'') (''1 | c'' @ [LF] @ ''2 | d'')) (Some 1) (Some 2)
     = Success (''c'' @ [CR, LF] @ ''d'' @ [CR, LF])
   \<and> applyDiff defaultStrategy (''a'' @ [CR, LF] @ ''b'' @ [CR, LF])
       (searchMarker @ ''1 | a'' @ [CR, LF] @ ''2 | b'' @ [CR, LF] @ separatorMarker
          @ ''1 | c'' @ [CR, LF] @ ''2 | d'' @ [CR, LF] @ replaceMarker) (Some 1) (Some 2)
     = Failure (NoSufficientMatch
         \<lparr>matchIndex = 0, bestMatchScore = 3 / 7,
            bestMatchContent = ''a'' @ [LF] @ ''b''\<rparr> 1)"
  by code_simp

subsection \<open>The scan against an exhaustive scan\<close>

lemma fold_probe_score:
  "bestMatchScore (fold (probe ol sl) xs st)
     = fold max (map (candidateScore ol sl) xs) (bestMatchScore st)"
proof (induction xs arbitrary: st)
  case Nil
  show ?case by simp
next
  case (Cons x xs)
  have "bestMatchScore (probe ol sl x st) = max (candidateScore ol sl x) (bestMatchScore st)"
    by (simp add: probe_cases max_def)
  then show ?case by (simp add: Cons.IH)
qed

lemma fold_max_Max: "fold max xs (a::rat) = Max (insert a (set xs))"
  using Max.set_eq_fold[of a xs] by simp

lemma middle_out_exhaustive_when_fits:
  assumes "(s + e) div 2 \<le> e - int (length sl)"
  shows "bestMatchScore (middleOutSearch ol sl s e initialBest) = exhaustiveBest ol sl s e"
proof -
  let ?xs = "probeOrder (length sl) s e ((s + e) div 2) ((s + e) div 2 + 1)"
  have "set ?xs = {s..e - int (length sl)}"
    using assms by (auto simp add: probeOrder_set)
  then have "set (map (candidateScore ol sl) ?xs)
      = set (map (candidateScore ol sl) [s..e - int (length sl)])"
    by simp
  then show ?thesis
    unfolding middleOutSearch_fold fold_probe_score exhaustiveBest_def fold_max_Max
    by (simp add: initialBest_def)
qed

text \<open>
  Claim C2 does not hold for the code. The right-hand probes stop at
  \<open>searchEndIndex - searchLines.length\<close>, the left-hand probes have no such bound: every
  index from the midpoint down to \<open>searchStartIndex\<close> is probed, also where the
  candidate runs past the end of the window. On three lines and a three-line SEARCH
  block the only candidate inside the window starts at index 0 and scores 2/5; the
  scan also probes index 1, whose chunk is cut off at the end of the document, and
  reports 3/5 there.
\<close>

theorem middle_out_exceeds_exhaustive:
  "bestMatchScore (middleOutSearch [''x'', ''a'', ''b''] [''a'', ''b'', ''c''] 0 3 initialBest)
     = 3 / 5
   \<and> matchIndex (middleOutSearch [''x'', ''a'', ''b''] [''a'', ''b'', ''c''] 0 3 initialBest) = 1
   \<and> exhaustiveBest [''x'', ''a'', ''b''] [''a'', ''b'', ''c''] 0 3 = 2 / 5"
  by code_simp

theorem middle_out_exceeds_exhaustive_witness:
  "bestMatchScore (middleOutSearch [''x'', ''a'', ''b''] [''a'', ''b'', ''c''] 0 3 initialBest)
     \<noteq> exhaustiveBest [''x'', ''a'', ''b''] [''a'', ''b'', ''c''] 0 3"
  using middle_out_exceeds_exhaustive by simp

text \<open>
  The same probes decide a patch under the default threshold: a one-line document has
  no window of two lines, yet a SEARCH block of the line and an empty line is matched
  against the document cut off at its end, and the patch is applied.
\<close>

lemma cut_off_candidate_accepted:
  "applyDiff defaultStrategy ''a'' (makeDiff (''a'' @ [LF]) ''b'') None None = Success ''b''
   \<and> exhaustiveBest [''a''] [''a'', []] 0 1 = 0"
  by code_simp

subsection \<open>Empty SEARCH block\<close>

lemma candidateScore_empty: "candidateScore ol [] i = 1"
  by (simp add: candidateScore_def getSimilarity_def)

lemma fold_probe_saturated:
  assumes "bestMatchScore st = 1" and "\<forall>i\<in>set xs. candidateScore ol sl i \<le> 1"
  shows "fold (probe ol sl) xs st = st"
  using assms
proof (induction xs arbitrary: st)
  case Nil
  show ?case by simp
next
  case (Cons x xs)
  then have "probe ol sl x st = st" by (simp add: probe_cases)
  with Cons show ?case by simp
qed

lemma empty_search_scan:
  "middleOutSearch ol [] 0 (int (length ol)) initialBest
     = \<lparr>matchIndex = int (length ol) div 2, bestMatchScore = 1,
        bestMatchContent = candidateChunk ol [] (int (length ol) div 2)\<rparr>"
proof -
  let ?mid = "int (length ol) div 2"
  let ?st1 = "\<lparr>matchIndex = ?mid, bestMatchScore = 1,
        bestMatchContent = candidateChunk ol [] ?mid\<rparr>"
  have mid: "0 \<le> ?mid" by simp
  have "\<exists>rest. probeOrder 0 0 (int (length ol)) ?mid (?mid + 1) = ?mid # rest"
    using mid by (subst probeOrder.simps) simp
  then obtain rest where xs: "probeOrder 0 0 (int (length ol)) ?mid (?mid + 1) = ?mid # rest"
    by blast
  have p: "probe ol [] ?mid initialBest = ?st1"
    by (simp add: probe_cases candidateScore_empty initialBest_def)
  have "fold (probe ol []) rest ?st1 = ?st1"
    by (rule fold_probe_saturated) (simp_all add: candidateScore_empty)
  then show ?thesis
    using xs p by (simp add: middleOutSearch_fold)
qed

lemma empty_search_both_hints:
  assumes "parseDiff diffContent = Some (sc, rc)"
    and "searchLinesOf sc rc = []"
    and "1 \<le> n" and "n \<le> int (length (splitLines originalContent))"
    and "fuzzyThreshold cfg \<le> 1"
  shows "applyDiff cfg originalContent diffContent (Some n) (Some n)
           = Success (joinWith (lineEndingOf originalContent)
               (take (nat (n - 1)) (splitLines originalContent)
                @ indentedReplaceLines (splitLines originalContent) [] (replaceLinesOf sc rc) (n - 1)
                @ drop (nat (n - 1)) (splitLines originalContent)))"
proof -
  let ?ol = "splitLines originalContent"
  have t: "truthy (Some n)" using assms(3) by (simp add: truthy_def)
  have h: "hintValue (Some n) = n" by (simp add: hintValue_def)
  have gs: "\<And>x. getSimilarity x [] = 1" by (simp add: getSimilarity_def)
  have fm: "findMatch cfg ?ol [] (Some n) (Some n)
     = Inr \<lparr>matchIndex = n - 1, bestMatchScore = 1,
        bestMatchContent = joinWith [LF] (slice ?ol (n - 1) n)\<rparr>"
    using findMatch_exact[OF t t, of ?ol cfg "[]"] assms(3,4,5) by (simp add: h gs)
  have "applyDiff cfg originalContent diffContent (Some n) (Some n)
     = Success (joinWith (lineEndingOf originalContent)
          (spliceLines ?ol [] (replaceLinesOf sc rc) (n - 1)))"
    using assms t by (simp add: applyDiff_def applyDiffBlocks_unfold fm h)
  then show ?thesis
    using assms(3) by (simp add: spliceLines_take_drop)
qed

text \<open>
  Claim C7 does not hold for the code. With both hints given and equal the hinted check
  accepts the zero-length match at \<open>startLine - 1\<close> (lemma
  \<open>empty_search_both_hints\<close>). With the start hint alone the hinted check is skipped,
  the scan of the whole document accepts its first probe, and the REPLACE lines are
  inserted at the middle of the document, whatever the start hint says.
\<close>

theorem empty_search_start_hint_only:
  assumes "parseDiff diffContent = Some (sc, rc)"
    and "searchLinesOf sc rc = []"
    and "truthy startLine" and "\<not> truthy endLine"
    and "fuzzyThreshold cfg \<le> 1"
  shows "applyDiff cfg originalContent diffContent startLine endLine
           = Success (joinWith (lineEndingOf originalContent)
               (take (length (splitLines originalContent) div 2) (splitLines originalContent)
                @ indentedReplaceLines (splitLines originalContent) [] (replaceLinesOf sc rc)
                    (int (length (splitLines originalContent)) div 2)
                @ drop (length (splitLines originalContent) div 2) (splitLines originalContent)))"
proof -
  let ?ol = "splitLines originalContent"
  let ?mid = "int (length ?ol) div 2"
  have nt: "\<not> (truthy startLine \<and> truthy endLine)" using assms(4) by simp
  have fm: "findMatch cfg ?ol [] startLine endLine
     = Inr \<lparr>matchIndex = ?mid, bestMatchScore = 1,
        bestMatchContent = candidateChunk ?ol [] ?mid\<rparr>"
    unfolding findMatch_unhinted[OF nt] empty_search_scan by (rule refl)
  have mid: "0 \<le> ?mid" by simp
  have nm: "?mid \<noteq> - 1" using mid by linarith
  have "applyDiff cfg originalContent diffContent startLine endLine
     = Success (joinWith (lineEndingOf originalContent)
          (spliceLines ?ol [] (replaceLinesOf sc rc) ?mid))"
    using assms nm by (simp add: applyDiff_def applyDiffBlocks_unfold fm)
  also have "nat ?mid = length ?ol div 2" by (simp add: nat_div_distrib)
  ultimately show ?thesis
    using mid by (simp add: spliceLines_take_drop)
qed

theorem empty_search_start_hint_only_witness:
  "parseDiff (makeDiff [] ''X'') = Some ([], ''X'')
   \<and> searchLinesOf [] ''X'' = []
   \<and> truthy (Some 1) \<and> \<not> truthy None \<and> fuzzyThreshold defaultStrategy \<le> 1
   \<and> applyDiff defaultStrategy (''a'' @ [LF] @ ''b'' @ [LF] @ ''c'' @ [LF] @ ''d'')
        (makeDiff [] ''X'') (Some 1) None
       = Success (''a'' @ [LF] @ ''b'' @ [LF] @ ''X'' @ [LF] @ ''c'' @ [LF] @ ''d'')"
proof -
  have p: "parseDiff (makeDiff [] ''X'') = Some ([], ''X'')" by code_simp
  have s: "searchLinesOf [] ''X'' = []" by code_simp
  have t: "truthy (Some 1)" and n: "\<not> truthy None" by (simp_all add: truthy_def)
  have f: "fuzzyThreshold defaultStrategy \<le> 1" by (simp add: defaultStrategy_def)
  have v: "joinWith (lineEndingOf (''a'' @ [LF] @ ''b'' @ [LF] @ ''c'' @ [LF] @ ''d''))
     (take (length (splitLines (''a'' @ [LF] @ ''b'' @ [LF] @ ''c'' @ [LF] @ ''d'')) div 2)
        (splitLines (''a'' @ [LF] @ ''b'' @ [LF] @ ''c'' @ [LF] @ ''d''))
      @ indentedReplaceLines (splitLines (''a'' @ [LF] @ ''b'' @ [LF] @ ''c'' @ [LF] @ ''d'')) []
          (replaceLinesOf [] ''X'')
          (int (length (splitLines (''a'' @ [LF] @ ''b'' @ [LF] @ ''c'' @ [LF] @ ''d''))) div 2)
      @ drop (length (splitLines (''a'' @ [LF] @ ''b'' @ [LF] @ ''c'' @ [LF] @ ''d'')) div 2)
          (splitLines (''a'' @ [LF] @ ''b'' @ [LF] @ ''c'' @ [LF] @ ''d'')))
     = ''a'' @ [LF] @ ''b'' @ [LF] @ ''X'' @ [LF] @ ''c'' @ [LF] @ ''d''"
    by code_simp
  from empty_search_start_hint_only[OF p s t n f,
         of "''a'' @ [LF] @ ''b'' @ [LF] @ ''c'' @ [LF] @ ''d''"]
  have "applyDiff defaultStrategy (''a'' @ [LF] @ ''b'' @ [LF] @ ''c'' @ [LF] @ ''d'')
        (makeDiff [] ''X'') (Some 1) None
       = Success (''a'' @ [LF] @ ''b'' @ [LF] @ ''X'' @ [LF] @ ''c'' @ [LF] @ ''d'')"
    unfolding v .
  with p s t n f show ?thesis by blast
qed

lemma empty_search_both_hints_example:
  "applyDiff defaultStrategy (''a'' @ [LF] @ ''b'' @ [LF] @ ''c'' @ [LF] @ ''d'')
     (makeDiff [] ''X'') (Some 1) (Some 1)
     = Success (''X'' @ [LF] @ ''a'' @ [LF] @ ''b'' @ [LF] @ ''c'' @ [LF] @ ''d'')"
  by code_simp

subsection \<open>Round trip on an exact hint\<close>

lemma getSimilarity_refl: "getSimilarity x x = 1"
  by (simp add: getSimilarity_def)

lemma slice_range:
  assumes "1 \<le> a" "a \<le> b" "b \<le> int (length ol)"
  shows "length (slice ol (a - 1) b) = nat (b - (a - 1))"
    and "hd (slice ol (a - 1) b) = ol ! nat (a - 1)"
    and "slice ol (a - 1) b \<noteq> []"
proof -
  have s: "slice ol (a - 1) b = take (nat (b - (a - 1))) (drop (nat (a - 1)) ol)"
    using assms by (simp add: slice_take_drop)
  show l: "length (slice ol (a - 1) b) = nat (b - (a - 1))"
    unfolding s using assms by simp
  then show ne: "slice ol (a - 1) b \<noteq> []" using assms by auto
  show "hd (slice ol (a - 1) b) = ol ! nat (a - 1)"
    unfolding s using assms by (simp add: hd_drop_conv_nth)
qed

lemma specIndentLine_verbatim:
  assumes "verbatimUnder base line"
  shows "specIndentLine base base line = line"
proof -
  let ?cur = "leadingIndent line"
  from assms have p: "prefix base ?cur \<or> prefix ?cur base"
    and l: "line = ?cur @ trim line" by (simp_all add: verbatimUnder_def)
  have "(if int (length ?cur) - int (length base) < 0
         then truncateBy (nat \<bar>int (length ?cur) - int (length base)\<bar>) base
         else base @ drop (length base) ?cur) = ?cur"
  proof (cases "length ?cur < length base")
    case True
    with p have "prefix ?cur base" by (auto dest: prefix_length_le)
    then have "take (length ?cur) base = ?cur" by (auto simp add: prefix_def)
    moreover have "length base - nat \<bar>int (length ?cur) - int (length base)\<bar> = length ?cur"
      using True by simp
    ultimately show ?thesis using True by (simp add: truncateBy_def)
  next
    case False
    have "prefix base ?cur"
    proof (rule disjE[OF p])
      assume "prefix ?cur base"
      then obtain zs where z: "base = ?cur @ zs" by (auto simp add: prefix_def)
      then have "length base = length ?cur + length zs" by (metis length_append)
      with False have "zs = []" by simp
      with z show ?thesis by simp
    qed
    then have "base @ drop (length base) ?cur = ?cur" by (auto simp add: prefix_def)
    then show ?thesis using False by simp
  qed
  then have "specIndentLine base base line = ?cur @ trim line"
    by (simp add: specIndentLine_def Let_def)
  with l show ?thesis by simp
qed

lemma normalizeBlocks_unannotated:
  "\<not> (everyLineHasLineNumbers sc \<and> everyLineHasLineNumbers rc) \<Longrightarrow>
     normalizeBlocks sc rc = (sc, rc)"
  unfolding normalizeBlocks_def by (rule if_not_P)

text \<open>
  Claim C1, as the code has it. Let the SEARCH block of the patch be non-empty and
  consist exactly of the lines of the document at a valid range, let SEARCH and REPLACE
  not both be fully line-number annotated, and let the threshold be at most 1. Then
  \<open>applyDiff\<close> with that range as hint succeeds; the result is the document's lines
  before the range, the REPLACE lines re-indented under the indent of the first line of
  the range, and the document's lines after the range, joined with the line ending of
  the document. The REPLACE lines appear verbatim when each of them has an indent that
  is a prefix or an extension of that indent and no other surrounding whitespace.
\<close>

theorem exact_hint_round_trip:
  assumes parse: "parseDiff diffContent = Some (sc, rc)"
    and range: "1 \<le> a" "a \<le> b" "b \<le> int (length (splitLines D))"
    and search: "sc \<noteq> []" "splitLines sc = slice (splitLines D) (a - 1) b"
    and plain: "\<not> (everyLineHasLineNumbers sc \<and> everyLineHasLineNumbers rc)"
    and thr: "fuzzyThreshold cfg \<le> 1"
  shows "applyDiff cfg D diffContent (Some a) (Some b)
           = Success (joinWith (lineEndingOf D)
               (take (nat (a - 1)) (splitLines D)
                @ map (specIndentLine (leadingIndent (splitLines D ! nat (a - 1)))
                         (leadingIndent (splitLines D ! nat (a - 1)))) (blockLines rc)
                @ drop (nat b) (splitLines D)))
       \<and> ((\<forall>line\<in>set (blockLines rc).
              verbatimUnder (leadingIndent (splitLines D ! nat (a - 1))) line) \<longrightarrow>
            applyDiff cfg D diffContent (Some a) (Some b)
              = Success (joinWith (lineEndingOf D)
                  (take (nat (a - 1)) (splitLines D) @ blockLines rc
                   @ drop (nat b) (splitLines D))))"
proof -
  let ?ol = "splitLines D"
  let ?sl = "slice ?ol (a - 1) b"
  let ?rl = "blockLines rc"
  let ?base = "leadingIndent (?ol ! nat (a - 1))"
  have nb: "normalizeBlocks sc rc = (sc, rc)" by (rule normalizeBlocks_unannotated[OF plain])
  have sl: "searchLinesOf sc rc = ?sl"
    using search by (simp add: searchLinesOf_def nb blockLines_def)
  have rl: "replaceLinesOf sc rc = ?rl" by (simp add: replaceLinesOf_def nb)
  note sr = slice_range[OF range]
  have ta: "truthy (Some a)" and tb: "truthy (Some b)"
    using range by (simp_all add: truthy_def)
  have ha: "hintValue (Some a) = a" and hb: "hintValue (Some b) = b"
    by (simp_all add: hintValue_def)
  have fm: "findMatch cfg ?ol ?sl (Some a) (Some b)
     = Inr \<lparr>matchIndex = a - 1, bestMatchScore = 1,
            bestMatchContent = joinWith [LF] ?sl\<rparr>"
    using findMatch_exact[OF ta tb, of ?ol cfg ?sl] range thr
    by (simp add: ha hb getSimilarity_refl)
  have nm: "a - 1 \<noteq> - 1" using range by simp
  have res: "applyDiff cfg D diffContent (Some a) (Some b)
     = Success (joinWith (lineEndingOf D) (spliceLines ?ol ?sl ?rl (a - 1)))"
    using parse sr(3) thr nm by (simp add: applyDiff_def applyDiffBlocks_unfold sl rl fm)
  have len: "nat (a - 1) + length ?sl = nat b"
    unfolding sr(1) using range by simp
  have m: "firstOrEmpty (map leadingIndent (slice ?ol (a - 1) (a - 1 + int (length ?sl)))) = ?base"
    by (rule first_matched_indent) (use range sr(3) in simp_all)
  have s: "firstOrEmpty (map leadingIndent ?sl) = ?base"
    using first_search_indent[OF sr(3)] sr(2) by simp
  have ind: "indentedReplaceLines ?ol ?sl ?rl (a - 1) = map (specIndentLine ?base ?base) ?rl"
    unfolding indentedReplaceLines_def Let_def m s by (simp add: indentReplaceLine_spec)
  have sp: "spliceLines ?ol ?sl ?rl (a - 1)
     = take (nat (a - 1)) ?ol @ map (specIndentLine ?base ?base) ?rl @ drop (nat b) ?ol"
    using range by (simp add: spliceLines_take_drop ind len)
  have first: "applyDiff cfg D diffContent (Some a) (Some b)
           = Success (joinWith (lineEndingOf D)
               (take (nat (a - 1)) ?ol @ map (specIndentLine ?base ?base) ?rl @ drop (nat b) ?ol))"
    unfolding res sp by (rule refl)
  have second: "(\<forall>line\<in>set ?rl. verbatimUnder ?base line) \<longrightarrow>
            applyDiff cfg D diffContent (Some a) (Some b)
              = Success (joinWith (lineEndingOf D)
                  (take (nat (a - 1)) ?ol @ ?rl @ drop (nat b) ?ol))"
  proof
    assume "\<forall>line\<in>set ?rl. verbatimUnder ?base line"
    then have "map (specIndentLine ?base ?base) ?rl = ?rl"
      by (simp add: specIndentLine_verbatim map_idI)
    with first show "applyDiff cfg D diffContent (Some a) (Some b)
              = Success (joinWith (lineEndingOf D)
                  (take (nat (a - 1)) ?ol @ ?rl @ drop (nat b) ?ol))"
      by simp
  qed
  from first second show ?thesis by blast
qed

theorem exact_hint_round_trip_witness:
  "parseDiff (makeDiff ''    return 1'' ''    return 2'')
     = Some (''    return 1'', ''    return 2'')
   \<and> (1::int) \<le> 2 \<and> (2::int) \<le> 2
   \<and> 2 \<le> int (length (splitLines (''def f():'' @ [LF] @ ''    return 1'' @ [LF])))
   \<and> ''    return 1'' \<noteq> []
   \<and> splitLines ''    return 1''
       = slice (splitLines (''def f():'' @ [LF] @ ''    return 1'' @ [LF])) (2 - 1) 2
   \<and> \<not> (everyLineHasLineNumbers ''    return 1'' \<and> everyLineHasLineNumbers ''    return 2'')
   \<and> fuzzyThreshold defaultStrategy \<le> 1
   \<and> list_all (verbatimUnder (leadingIndent
         (splitLines (''def f():'' @ [LF] @ ''    return 1'' @ [LF]) ! nat (2 - 1))))
        (blockLines ''    return 2'')
   \<and> applyDiff defaultStrategy (''def f():'' @ [LF] @ ''    return 1'' @ [LF])
        (makeDiff ''    return 1'' ''    return 2'') (Some 2) (Some 2)
       = Success (''def f():'' @ [LF] @ ''    return 2'' @ [LF])"
proof -
  let ?D = "''def f():'' @ [LF] @ ''    return 1'' @ [LF]"
  have p: "parseDiff (makeDiff ''    return 1'' ''    return 2'')
     = Some (''    return 1'', ''    return 2'')" by code_simp
  have r1: "(1::int) \<le> 2" and r2: "(2::int) \<le> 2" by simp_all
  have r3: "2 \<le> int (length (splitLines ?D))" by code_simp
  have s1: "''    return 1'' \<noteq> []" by simp
  have s2: "splitLines ''    return 1'' = slice (splitLines ?D) (2 - 1) 2" by code_simp
  have n: "\<not> (everyLineHasLineNumbers ''    return 1''
              \<and> everyLineHasLineNumbers ''    return 2'')" by code_simp
  have t: "fuzzyThreshold defaultStrategy \<le> 1" by (simp add: defaultStrategy_def)
  have v: "list_all (verbatimUnder (leadingIndent (splitLines ?D ! nat (2 - 1))))
             (blockLines ''    return 2'')" by code_simp
  have j: "joinWith (lineEndingOf ?D)
             (take (nat (2 - 1)) (splitLines ?D) @ blockLines ''    return 2''
              @ drop (nat 2) (splitLines ?D))
           = ''def f():'' @ [LF] @ ''    return 2'' @ [LF]" by code_simp
  have v': "\<forall>line\<in>set (blockLines ''    return 2'').
              verbatimUnder (leadingIndent (splitLines ?D ! nat (2 - 1))) line"
    using v unfolding list_all_iff .
  from exact_hint_round_trip[OF p r1 r2 r3 s1 s2 n t] v'
  have "applyDiff defaultStrategy ?D (makeDiff ''    return 1'' ''    return 2'')
          (Some 2) (Some 2)
        = Success (joinWith (lineEndingOf ?D)
             (take (nat (2 - 1)) (splitLines ?D) @ blockLines ''    return 2''
              @ drop (nat 2) (splitLines ?D)))"
    by blast
  then have "applyDiff defaultStrategy ?D (makeDiff ''    return 1'' ''    return 2'')
          (Some 2) (Some 2) = Success (''def f():'' @ [LF] @ ''    return 2'' @ [LF])"
    unfolding j .
  with p r1 r2 r3 s1 s2 n t v show ?thesis by blast
qed

text \<open>
  The replacement is not copied verbatim: under a tab-indented line a REPLACE line
  indented with four spaces comes out as the tab followed by three spaces.
\<close>

theorem round_trip_reindents_counterexample:
  "parseDiff (makeDiff [TAB, CHR ''x''] ''    y'') = Some ([TAB, CHR ''x''], ''    y'')
   \<and> splitLines [TAB, CHR ''x''] = slice (splitLines [TAB, CHR ''x'']) (1 - 1) 1
   \<and> applyDiff defaultStrategy [TAB, CHR ''x''] (makeDiff [TAB, CHR ''x''] ''    y'')
        (Some 1) (Some 1) = Success [TAB, SP, SP, SP, CHR ''y'']
   \<and> [TAB, SP, SP, SP, CHR ''y''] \<noteq> ''    y''"
  by code_simp

text \<open>
  Two more inputs that the statement above leaves out: a range that is one empty line gives
  an empty SEARCH block, which is a pure insertion and removes no line; and a fully
  annotated SEARCH and REPLACE pair is stripped before matching and then fails against
  the annotated document line.
\<close>

lemma round_trip_empty_line_inserts:
  "applyDiff defaultStrategy (''a'' @ [LF] @ [LF] @ ''b'') (makeDiff [] ''X'') (Some 2) (Some 2)
     = Success (''a'' @ [LF] @ ''X'' @ [LF] @ [LF] @ ''b'')"
  by code_simp

lemma round_trip_annotated_fails:
  "applyDiff defaultStrategy ''1 | a'' (makeDiff ''1 | a'' ''2 | b'') (Some 1) (Some 1)
     = Failure (NoSufficientMatch
         \<lparr>matchIndex = 0, bestMatchScore = 1 / 5, bestMatchContent = ''1 | a''\<rparr> 1)"
  by code_simp

end
